theory Spec2Isabelle
  imports Main
begin

section \<open>Strings\<close>

text \<open>
  A JavaScript string is modelled by the list of its code units; the development
  covers code units below 256, so a \<^typ>\<open>char\<close> stands for the code unit of the same
  number. \<open>is_ws\<close> is the set that \<open>String.prototype.trim\<close>, the \<open>\s\<close> class of regular
  expressions and the white space of numeric literals share (WhiteSpace and
  LineTerminator), cut down to that range.
\<close>

definition is_ws :: "char \<Rightarrow> bool" where
  "is_ws c = (c \<in> set [CHR 0x09, CHR 0x0A, CHR 0x0B, CHR 0x0C, CHR 0x0D, CHR 0x20, CHR 0xA0])"

definition trim :: "string \<Rightarrow> string" where
  "trim s = rev (dropWhile is_ws (rev (dropWhile is_ws s)))"

definition lower_table :: "(char \<times> char) list" where
  "lower_table = zip ''ABCDEFGHIJKLMNOPQRSTUVWXYZ'' ''abcdefghijklmnopqrstuvwxyz''
     @ zip [CHR 0xC0, CHR 0xC1, CHR 0xC2, CHR 0xC3, CHR 0xC4, CHR 0xC5, CHR 0xC6, CHR 0xC7,
            CHR 0xC8, CHR 0xC9, CHR 0xCA, CHR 0xCB, CHR 0xCC, CHR 0xCD, CHR 0xCE, CHR 0xCF,
            CHR 0xD0, CHR 0xD1, CHR 0xD2, CHR 0xD3, CHR 0xD4, CHR 0xD5, CHR 0xD6,
            CHR 0xD8, CHR 0xD9, CHR 0xDA, CHR 0xDB, CHR 0xDC, CHR 0xDD, CHR 0xDE]
           [CHR 0xE0, CHR 0xE1, CHR 0xE2, CHR 0xE3, CHR 0xE4, CHR 0xE5, CHR 0xE6, CHR 0xE7,
            CHR 0xE8, CHR 0xE9, CHR 0xEA, CHR 0xEB, CHR 0xEC, CHR 0xED, CHR 0xEE, CHR 0xEF,
            CHR 0xF0, CHR 0xF1, CHR 0xF2, CHR 0xF3, CHR 0xF4, CHR 0xF5, CHR 0xF6,
            CHR 0xF8, CHR 0xF9, CHR 0xFA, CHR 0xFB, CHR 0xFC, CHR 0xFD, CHR 0xFE]"

definition toLowerCase_char :: "char \<Rightarrow> char" where
  "toLowerCase_char c = (case map_of lower_table c of Some d \<Rightarrow> d | None \<Rightarrow> c)"

definition toLowerCase :: "string \<Rightarrow> string" where
  "toLowerCase s = map toLowerCase_char s"

fun startsWith :: "string \<Rightarrow> string \<Rightarrow> bool" where
  "startsWith s [] = True"
| "startsWith [] (p # ps) = False"
| "startsWith (c # cs) (p # ps) = (c = p \<and> startsWith cs ps)"

definition endsWith :: "string \<Rightarrow> string \<Rightarrow> bool" where
  "endsWith s suffix = startsWith (rev s) (rev suffix)"

fun includes_str :: "string \<Rightarrow> string \<Rightarrow> bool" where
  "includes_str [] sub = (sub = [])"
| "includes_str (c # cs) sub = (startsWith (c # cs) sub \<or> includes_str cs sub)"

text \<open>\<open>s.split(sep)\<close> for a separator of one code unit: the empty string gives one empty piece.\<close>

fun split_on :: "char \<Rightarrow> string \<Rightarrow> string list" where
  "split_on sep [] = [[]]"
| "split_on sep (c # cs) =
     (if c = sep then [] # split_on sep cs
      else (case split_on sep cs of p # ps \<Rightarrow> (c # p) # ps | [] \<Rightarrow> [[c]]))"

fun join :: "string \<Rightarrow> string list \<Rightarrow> string" where
  "join sep [] = []"
| "join sep [x] = x"
| "join sep (x # y # ys) = x @ sep @ join sep (y # ys)"

section \<open>Numbers\<close>

text \<open>
  A Number is NaN, an infinity, or a finite binary64 value. \<open>Fin m k\<close> stands for
  \<open>m / 10^k\<close>, kept normal (\<open>k = 0\<close> or \<open>10\<close> does not divide \<open>m\<close>): every binary64 value
  has such a finite decimal expansion, \<open>s * 2^q\<close> with a negative \<open>q\<close> being
  \<open>s * 5^(-q) / 10^(-q)\<close>. \<open>-0\<close> is identified with \<open>0\<close> (they are \<open>===\<close> and print
  alike).
\<close>

datatype jsnum = NaN | PosInf | NegInf | Fin int nat

definition is_digit :: "char \<Rightarrow> bool" where
  "is_digit c = (c \<in> set ''0123456789'')"

definition digit_table :: "(char \<times> nat) list" where
  "digit_table = zip ''0123456789abcdef'' [0 ..< 16] @ zip ''ABCDEF'' [10 ..< 16]"

definition digit_val :: "char \<Rightarrow> nat" where
  "digit_val c = (case map_of digit_table c of Some d \<Rightarrow> d | None \<Rightarrow> 0)"

definition is_radix_digit :: "nat \<Rightarrow> char \<Rightarrow> bool" where
  "is_radix_digit r c = (case map_of digit_table c of Some d \<Rightarrow> d < r | None \<Rightarrow> False)"

definition digits_val :: "int \<Rightarrow> string \<Rightarrow> int" where
  "digits_val r ds = foldl (\<lambda>a c. r * a + int (digit_val c)) 0 ds"

fun normalise :: "int \<Rightarrow> nat \<Rightarrow> jsnum" where
  "normalise m 0 = Fin m 0"
| "normalise m (Suc k) = (if m mod 10 = 0 then normalise (m div 10) k else Fin m (Suc k))"

text \<open>The number of binary digits of a positive integer.\<close>

function bitlen :: "int \<Rightarrow> nat" where
  "bitlen n = (if n \<le> 0 then 0 else Suc (bitlen (n div 2)))"
  by pat_completeness auto
termination
  by (relation "measure nat") auto

declare bitlen.simps [simp del]

text \<open>
  For positive \<open>n\<close> and \<open>d\<close>, \<open>floor_log2 n d\<close> is the integer \<open>e\<close> with
  \<open>2^e \<le> n / d < 2^(e + 1)\<close>: the difference of the bit lengths, or one less.
\<close>

definition floor_log2 :: "int \<Rightarrow> int \<Rightarrow> int" where
  "floor_log2 n d =
     (let e = int (bitlen n) - int (bitlen d)
      in if d * 2 ^ nat e \<le> n * 2 ^ nat (- e) then e else e - 1)"

text \<open>
  The Number of the quotient \<open>n / d\<close> of a natural \<open>n\<close> by a positive \<open>d\<close>: the binary64 value
  nearest to it, the one with the even significand when two are as near. The
  significand \<open>s\<close> has at most 53 bits and counts units of \<open>2^q\<close>, which is \<open>2^-1074\<close>
  for the subnormal values; a quotient that rounds to \<open>2^1024\<close> or more gives Infinity.
\<close>

definition round_binary64 :: "int \<Rightarrow> int \<Rightarrow> jsnum" where
  "round_binary64 n d =
     (if n = 0 then Fin 0 0
      else (let q = max (floor_log2 n d - 52) (- 1074);
                num = n * 2 ^ nat (- q);
                den = d * 2 ^ nat q;
                f = num div den;
                r = num mod den;
                s = (if 2 * r < den \<or> (2 * r = den \<and> even f) then f else f + 1)
            in if 1024 < int (bitlen s) + q then PosInf
               else if 0 \<le> q then Fin (s * 2 ^ nat q) 0
               else normalise (s * 5 ^ nat (- q)) (nat (- q))))"

definition negate :: "jsnum \<Rightarrow> jsnum" where
  "negate x = (case x of NaN \<Rightarrow> NaN | PosInf \<Rightarrow> NegInf | NegInf \<Rightarrow> PosInf | Fin m k \<Rightarrow> Fin (- m) k)"

text \<open>\<open>scale m e\<close> is the Number of the value \<open>m * 10^e\<close>.\<close>

definition scale :: "int \<Rightarrow> int \<Rightarrow> jsnum" where
  "scale m e =
     (let x = round_binary64 (\<bar>m\<bar> * 10 ^ nat e) (10 ^ nat (- e))
      in if m < 0 then negate x else x)"

text \<open>
  The StringNumericLiteral grammar of \<open>Number(string)\<close>: NonDecimalIntegerLiteral
  (\<open>0x\<close>, \<open>0o\<close>, \<open>0b\<close>, no sign), and StrDecimalLiteral (sign, \<open>Infinity\<close>, digits with
  an optional fraction and exponent).
\<close>

definition NonDecimalIntegerLiteral :: "string \<Rightarrow> int option" where
  "NonDecimalIntegerLiteral s =
     (case s of
        z # x # ds \<Rightarrow>
          (let r = (if x = CHR ''x'' \<or> x = CHR ''X'' then 16
                    else if x = CHR ''o'' \<or> x = CHR ''O'' then 8
                    else if x = CHR ''b'' \<or> x = CHR ''B'' then 2 else (0::nat))
           in if z = CHR ''0'' \<and> r \<noteq> 0 \<and> ds \<noteq> [] \<and> list_all (is_radix_digit r) ds
              then Some (digits_val (int r) ds) else None)
      | _ \<Rightarrow> None)"

definition DecimalDigits :: "string \<Rightarrow> int option" where
  "DecimalDigits s = (if s \<noteq> [] \<and> list_all is_digit s then Some (digits_val 10 s) else None)"

definition SignedInteger :: "string \<Rightarrow> int option" where
  "SignedInteger s =
     (case s of
        [] \<Rightarrow> None
      | c # t \<Rightarrow> if c = CHR ''+'' then DecimalDigits t
                 else if c = CHR ''-'' then map_option uminus (DecimalDigits t)
                 else DecimalDigits s)"

definition ExponentPart_opt :: "string \<Rightarrow> int option" where
  "ExponentPart_opt s =
     (case s of
        [] \<Rightarrow> Some 0
      | c # t \<Rightarrow> if c = CHR ''e'' \<or> c = CHR ''E'' then SignedInteger t else None)"

text \<open>Mantissa and decimal exponent of a StrUnsignedDecimalLiteral other than \<open>Infinity\<close>.\<close>

definition StrUnsignedDecimalLiteral :: "string \<Rightarrow> (int \<times> int) option" where
  "StrUnsignedDecimalLiteral s =
     (let ds1 = takeWhile is_digit s;
          r1 = dropWhile is_digit s;
          hasDot = (r1 \<noteq> [] \<and> hd r1 = CHR ''.'');
          ds2 = (if hasDot then takeWhile is_digit (tl r1) else []);
          r2 = (if hasDot then dropWhile is_digit (tl r1) else r1)
      in if ds1 = [] \<and> ds2 = [] then None
         else (case ExponentPart_opt r2 of
                 None \<Rightarrow> None
               | Some e \<Rightarrow> Some (digits_val 10 (ds1 @ ds2), e - int (length ds2))))"

definition StrDecimalLiteral :: "string \<Rightarrow> jsnum" where
  "StrDecimalLiteral s =
     (let neg = (s \<noteq> [] \<and> hd s = CHR ''-'');
          u = (if s \<noteq> [] \<and> (hd s = CHR ''+'' \<or> hd s = CHR ''-'') then tl s else s)
      in if u = ''Infinity'' then (if neg then NegInf else PosInf)
         else (case StrUnsignedDecimalLiteral u of
                 None \<Rightarrow> NaN
               | Some (m, e) \<Rightarrow> scale (if neg then - m else m) e))"

definition Number_js :: "string \<Rightarrow> jsnum" where
  "Number_js s =
     (let t = trim s
      in if t = [] then Fin 0 0
         else (case NonDecimalIntegerLiteral t of
                 Some n \<Rightarrow> round_binary64 n 1
               | None \<Rightarrow> StrDecimalLiteral t))"

definition isNaN :: "jsnum \<Rightarrow> bool" where
  "isNaN num = (num = NaN)"

section \<open>Values, rows and parsed data\<close>

text \<open>
  A row is an object whose fields hold scalars; \<open>row[key]\<close> is \<open>map_of row key\<close>, with
  \<open>None\<close> for \<open>undefined\<close>. Properties inherited from \<open>Object.prototype\<close> are not
  modelled. \<open>json\<close> is what \<open>JSON.parse\<close> can return.
\<close>

datatype scalar = Null | Bool bool | Num jsnum | Str string

type_synonym row = "(string \<times> scalar) list"

datatype json = Scalar scalar | Arr "json list" | Obj "(string \<times> json) list"

definition json_of_row :: "row \<Rightarrow> json" where
  "json_of_row r = Obj (map (\<lambda>(k, v). (k, Scalar v)) r)"

definition json_of_rows :: "row list \<Rightarrow> json" where
  "json_of_rows rs = Arr (map json_of_row rs)"

text \<open>\<open>row[key] = v\<close> on an object: an existing field keeps its place, a new one is appended.\<close>

fun set_field :: "string \<Rightarrow> scalar \<Rightarrow> row \<Rightarrow> row" where
  "set_field k v [] = [(k, v)]"
| "set_field k v (p # ps) = (if fst p = k then (k, v) # ps else p # set_field k v ps)"

section \<open>CSV and TSV parsers\<close>

datatype error =
    Error string          \<comment> \<open>\<open>throw new Error(message)\<close>\<close>
  | SyntaxError           \<comment> \<open>thrown by \<open>new RegExp\<close> on an invalid pattern\<close>
  | TypeError             \<comment> \<open>property access on \<open>null\<close>\<close>
  | Messages "string list" \<comment> \<open>the list handed to \<open>setErrors\<close> before an early \<open>return\<close>\<close>

abbreviation dquote :: char where "dquote \<equiv> CHR 0x22"
abbreviation squote :: char where "squote \<equiv> CHR 0x27"

text \<open>The character loop of \<open>parseCsvLine\<close>, with its three variables.\<close>

fun parseCsvLine_loop :: "string \<Rightarrow> string list \<Rightarrow> string \<Rightarrow> bool \<Rightarrow> string list" where
  "parseCsvLine_loop [] result current inQuotes = result @ [trim current]"
| "parseCsvLine_loop (c # cs) result current inQuotes =
     (if c = dquote then parseCsvLine_loop cs result current (\<not> inQuotes)
      else if c = CHR '','' \<and> \<not> inQuotes then parseCsvLine_loop cs (result @ [trim current]) [] inQuotes
      else parseCsvLine_loop cs result (current @ [c]) inQuotes)"

definition parseCsvLine :: "string \<Rightarrow> string list" where
  "parseCsvLine line = parseCsvLine_loop line [] [] False"

text \<open>\<open>header.replace(/["']/g, '')\<close>\<close>

definition remove_quotes :: "string \<Rightarrow> string" where
  "remove_quotes header = filter (\<lambda>c. c \<noteq> dquote \<and> c \<noteq> squote) header"

definition csv_headers :: "string \<Rightarrow> string list" where
  "csv_headers line0 = map remove_quotes (parseCsvLine line0)"

text \<open>\<open>value.replace(/^["']|["']$/g, '')\<close>: one quote at the start, then one at the end of what is left.\<close>

definition is_quote :: "char \<Rightarrow> bool" where
  "is_quote c = (c = dquote \<or> c = squote)"

definition strip_surrounding_quotes :: "string \<Rightarrow> string" where
  "strip_surrounding_quotes v =
     (let w = (if v \<noteq> [] \<and> is_quote (hd v) then tl v else v)
      in if w \<noteq> [] \<and> is_quote (last w) then butlast w else w)"

text \<open>The two \<open>map\<close> callbacks that turn a token into a value.\<close>

definition csv_value :: "string \<Rightarrow> scalar" where
  "csv_value value0 =
     (let v = strip_surrounding_quotes value0
      in if v = [] \<or> toLowerCase v = ''null'' then Null
         else (let num = Number_js v in if \<not> isNaN num \<and> v \<noteq> [] then Num num else Str v))"

definition tsv_value :: "string \<Rightarrow> scalar" where
  "tsv_value value0 =
     (let v = trim value0
      in if v = [] \<or> toLowerCase v = ''null'' then Null
         else (let num = Number_js v in if \<not> isNaN num \<and> v \<noteq> [] then Num num else Str v))"

definition make_row :: "string list \<Rightarrow> scalar list \<Rightarrow> row" where
  "make_row headers vals = fold (\<lambda>(h, v) r. set_field h v r) (zip headers vals) []"

text \<open>The body of the line loop: a blank line and a line of the wrong arity add nothing.\<close>

definition csv_line_step :: "string list \<Rightarrow> string \<Rightarrow> row list \<Rightarrow> row list" where
  "csv_line_step headers l data =
     (let line = trim l
      in if line = [] then data
         else (let vals = map csv_value (parseCsvLine line)
               in if length vals = length headers then data @ [make_row headers vals] else data))"

definition parseCSV :: "string \<Rightarrow> error + row list" where
  "parseCSV csvText =
     (let lines = split_on (CHR 0x0A) (trim csvText)
      in if length lines < 2
         then Inl (Error ''CSV must have at least a header row and one data row'')
         else Inr (fold (csv_line_step (csv_headers (hd lines))) (tl lines) []))"

definition tsv_line_step :: "string list \<Rightarrow> string \<Rightarrow> row list \<Rightarrow> row list" where
  "tsv_line_step headers l data =
     (let line = trim l
      in if line = [] then data
         else (let vals = map tsv_value (split_on (CHR 0x09) line)
               in if length vals = length headers then data @ [make_row headers vals] else data))"

definition parseTSV :: "string \<Rightarrow> error + row list" where
  "parseTSV tsvText =
     (let lines = split_on (CHR 0x0A) (trim tsvText)
      in if length lines < 2
         then Inl (Error ''Data must have at least a header row and one data row'')
         else Inr (fold (tsv_line_step (map trim (split_on (CHR 0x09) (hd lines)))) (tl lines) []))"

section \<open>Printing values\<close>

definition digit_char :: "nat \<Rightarrow> char" where
  "digit_char d = ''0123456789'' ! d"

text \<open>The decimal digits of a natural number.\<close>

function show_digits :: "int \<Rightarrow> string" where
  "show_digits n =
     (if n < 10 then [digit_char (nat n)]
      else show_digits (n div 10) @ [digit_char (nat (n mod 10))])"
  by pat_completeness auto
termination
  by (relation "measure nat") auto

declare show_digits.simps [simp del]

definition show_int :: "int \<Rightarrow> string" where
  "show_int i = (if i < 0 then CHR ''-'' # show_digits (- i) else show_digits i)"

text \<open>
  \<open>Number::toString\<close> of a positive value \<open>x = a / b\<close> looks for integers \<open>n\<close>, \<open>k\<close> and
  \<open>s\<close> with \<open>k \<ge> 1\<close>, \<open>10^(k - 1) \<le> s < 10^k\<close> and \<open>s * 10^(n - k)\<close> a value that rounds
  to \<open>x\<close>, with \<open>k\<close> as small as possible and then \<open>s * 10^(n - k)\<close> as near to \<open>x\<close> as
  possible.

  \<open>decimal_exponent a b\<close> is the integer \<open>n\<close> with \<open>10^(n - 1) \<le> a / b < 10^n\<close>.
\<close>

definition decimal_exponent :: "int \<Rightarrow> int \<Rightarrow> int" where
  "decimal_exponent a b =
     (if b \<le> a then int (length (show_digits (a div b)))
      else 1 - int (length (show_digits ((b - 1) div a))))"

text \<open>
  The digits of a given length \<open>k\<close>: of the two multiples of \<open>10^(n - k)\<close> around \<open>a / b\<close>,
  the nearer one among those that round to \<open>x\<close>, the even one when both are as near.
  The upper multiple may be the next power of ten.
\<close>

definition digits_of_length :: "jsnum \<Rightarrow> int \<Rightarrow> int \<Rightarrow> int \<Rightarrow> nat \<Rightarrow> (int \<times> int) option" where
  "digits_of_length x a b n k =
     (let up = 10 ^ nat (n - int k);
          down = 10 ^ nat (int k - n);
          lo = (a * down) div (b * up);
          hi = lo + 1;
          nearer_lo = (2 * a * down < (2 * lo + 1) * b * up
                       \<or> (2 * a * down = (2 * lo + 1) * b * up \<and> even lo))
      in if round_binary64 (lo * up) down = x
            \<and> (round_binary64 (hi * up) down \<noteq> x \<or> nearer_lo)
         then Some (lo, n)
         else if round_binary64 (hi * up) down = x
         then (if hi = 10 ^ k then Some (10 ^ (k - 1), n + 1) else Some (hi, n))
         else None)"

fun first_digits :: "jsnum \<Rightarrow> int \<Rightarrow> int \<Rightarrow> int \<Rightarrow> nat list \<Rightarrow> (int \<times> nat \<times> int) option" where
  "first_digits x a b n [] = None"
| "first_digits x a b n (k # ks) =
     (case digits_of_length x a b n k of
        Some (s, n') \<Rightarrow> Some (s, k, n')
      | None \<Rightarrow> first_digits x a b n ks)"

text \<open>
  Seventeen digits are enough for a binary64 value. For another value \<open>m / 10^k\<close> the
  digits of \<open>m\<close> are taken.
\<close>

definition shortest_digits :: "int \<Rightarrow> nat \<Rightarrow> int \<times> nat \<times> int" where
  "shortest_digits m k =
     (case first_digits (Fin m k) m (10 ^ k) (decimal_exponent m (10 ^ k)) [1 ..< 18] of
        Some r \<Rightarrow> r
      | None \<Rightarrow> (m, length (show_digits m), int (length (show_digits m)) - int k))"

text \<open>The four notations, chosen by \<open>n\<close>: the last one has an exponent.\<close>

definition format_digits :: "int \<Rightarrow> nat \<Rightarrow> int \<Rightarrow> string" where
  "format_digits s k n =
     (let ds = show_digits s
      in if int k \<le> n \<and> n \<le> 21 then ds @ replicate (nat n - k) (CHR ''0'')
         else if 0 < n \<and> n \<le> 21 then take (nat n) ds @ ''.'' @ drop (nat n) ds
         else if - 6 < n \<and> n \<le> 0 then ''0.'' @ replicate (nat (- n)) (CHR ''0'') @ ds
         else (let e = n - 1;
                   es = (if e < 0 then ''-'' else ''+'') @ show_digits \<bar>e\<bar>
               in if k = 1 then ds @ ''e'' @ es
                  else [hd ds] @ ''.'' @ tl ds @ ''e'' @ es))"

definition Number_toString :: "jsnum \<Rightarrow> string" where
  "Number_toString x =
     (case x of
        NaN \<Rightarrow> ''NaN''
      | PosInf \<Rightarrow> ''Infinity''
      | NegInf \<Rightarrow> ''-Infinity''
      | Fin m k \<Rightarrow>
          if m = 0 then ''0''
          else (case shortest_digits \<bar>m\<bar> k of
                  (s, len, n) \<Rightarrow> (if m < 0 then ''-'' else []) @ format_digits s len n))"

text \<open>\<open>String(value)\<close>\<close>

definition String_js :: "scalar \<Rightarrow> string" where
  "String_js v =
     (case v of
        Null \<Rightarrow> ''null''
      | Bool b \<Rightarrow> (if b then ''true'' else ''false'')
      | Num x \<Rightarrow> Number_toString x
      | Str s \<Rightarrow> s)"

text \<open>The template literal that wraps \<open>value.replace(/'/g, "''")\<close> in single quotes.\<close>

definition sql_quote :: "string \<Rightarrow> string" where
  "sql_quote s = [squote] @ concat (map (\<lambda>c. if c = squote then [squote, squote] else [c]) s) @ [squote]"

section \<open>The regular expressions of the template engine\<close>

text \<open>
  Each fixed regular expression of the source is modelled by the function that computes
  its matches. \<open>match_all m s\<close> is \<open>s.match(re) || []\<close> for a global \<open>re\<close> that never
  matches the empty string, where \<open>m t\<close> is the length of the match of \<open>re\<close> at the start
  of \<open>t\<close>, if there is one: matches are searched from left to right, each search
  starting where the last match ended.
\<close>

function match_all :: "(string \<Rightarrow> nat option) \<Rightarrow> string \<Rightarrow> string list" where
  "match_all m s =
     (if s = [] then []
      else (case m s of
              None \<Rightarrow> match_all m (tl s)
            | Some n \<Rightarrow> if 0 < n then take n s # match_all m (drop n s) else match_all m (tl s)))"
  by pat_completeness auto
termination
  by (relation "measure (\<lambda>(m, s). length s)") auto

declare match_all.simps [simp del]

abbreviation lbrace :: char where "lbrace \<equiv> CHR 0x7B"
abbreviation rbrace :: char where "rbrace \<equiv> CHR 0x7D"
abbreviation backslash :: char where "backslash \<equiv> CHR 0x5C"
abbreviation newline :: char where "newline \<equiv> CHR 0x0A"

text \<open>
  \<open>/\{\{([^}]+)\}\}/\<close> at the start of \<open>s\<close>: two opening braces, the longest run of
  characters other than \<open>}\<close>, which must not be empty, and two closing braces. Giving
  characters of the run back cannot help, since a closing brace has to follow it.
\<close>

definition match_aggregate_at :: "string \<Rightarrow> nat option" where
  "match_aggregate_at s =
     (case s of
        a # b # t \<Rightarrow>
          (let run = takeWhile (\<lambda>c. c \<noteq> rbrace) t; r = dropWhile (\<lambda>c. c \<noteq> rbrace) t
           in if a = lbrace \<and> b = lbrace \<and> run \<noteq> [] \<and> startsWith r [rbrace, rbrace]
              then Some (length run + 4) else None)
      | _ \<Rightarrow> None)"

text \<open>\<open>/\{([^}]+)\}/\<close> at the start of \<open>s\<close>\<close>

definition match_placeholder_at :: "string \<Rightarrow> nat option" where
  "match_placeholder_at s =
     (case s of
        a # t \<Rightarrow>
          (let run = takeWhile (\<lambda>c. c \<noteq> rbrace) t; r = dropWhile (\<lambda>c. c \<noteq> rbrace) t
           in if a = lbrace \<and> run \<noteq> [] \<and> r \<noteq> [] then Some (length run + 2) else None)
      | [] \<Rightarrow> None)"

text \<open>\<open>placeholder.replace(/\{\{|\}\}/g, '')\<close>\<close>

fun strip_double_braces :: "string \<Rightarrow> string" where
  "strip_double_braces (a # b # t) =
     (if (a = lbrace \<and> b = lbrace) \<or> (a = rbrace \<and> b = rbrace) then strip_double_braces t
      else a # strip_double_braces (b # t))"
| "strip_double_braces s = s"

text \<open>\<open>placeholder.replace(/\{|\}/g, '')\<close>\<close>

definition strip_braces :: "string \<Rightarrow> string" where
  "strip_braces p = filter (\<lambda>c. c \<noteq> lbrace \<and> c \<noteq> rbrace) p"

text \<open>\<open>placeholder.replace(/[{}]/g, '\\$&')\<close>: a backslash in front of every brace.\<close>

definition escape_braces :: "string \<Rightarrow> string" where
  "escape_braces p = concat (map (\<lambda>c. if c = lbrace \<or> c = rbrace then [backslash, c] else [c]) p)"

text \<open>
  \<open>/VALUES\s*\((.*)\)/is\<close>. At a given start: the word in any case, white space, an
  opening parenthesis, and then, \<open>.*\<close> being greedy and matching line breaks too, all the
  text up to the last closing parenthesis, which is the captured group. The result of
  \<open>match\<close> is the index of the leftmost start that matches, with the group.
\<close>

definition values_match_at :: "string \<Rightarrow> string option" where
  "values_match_at s =
     (if toLowerCase (take 6 s) = ''values''
      then (let r = dropWhile is_ws (drop 6 s)
            in if r \<noteq> [] \<and> hd r = CHR ''('' \<and> CHR '')'' \<in> set (tl r)
               then Some (rev (tl (dropWhile (\<lambda>c. c \<noteq> CHR '')'') (rev (tl r)))))
               else None)
      else None)"

fun values_match_from :: "nat \<Rightarrow> string \<Rightarrow> (nat \<times> string) option" where
  "values_match_from i [] = None"
| "values_match_from i (c # cs) =
     (case values_match_at (c # cs) of
        Some rowTemplate \<Rightarrow> Some (i, rowTemplate)
      | None \<Rightarrow> values_match_from (Suc i) cs)"

definition values_match :: "string \<Rightarrow> (nat \<times> string) option" where
  "values_match s = values_match_from 0 s"

section \<open>Replacement\<close>

text \<open>
  GetSubstitution for a match without capture groups: \<open>$$\<close>, \<open>$&\<close>, \<open>$`\<close> and \<open>$'\<close> are
  expanded in the replacement text, every other character stands for itself.
\<close>

fun GetSubstitution :: "string \<Rightarrow> string \<Rightarrow> string \<Rightarrow> string \<Rightarrow> string" where
  "GetSubstitution matched preceding following (a # b # t) =
     (if a = CHR ''$'' \<and> b = CHR ''$'' then CHR ''$'' # GetSubstitution matched preceding following t
      else if a = CHR ''$'' \<and> b = CHR ''&'' then matched @ GetSubstitution matched preceding following t
      else if a = CHR ''$'' \<and> b = CHR 0x60 then preceding @ GetSubstitution matched preceding following t
      else if a = CHR ''$'' \<and> b = squote then following @ GetSubstitution matched preceding following t
      else a # GetSubstitution matched preceding following (b # t))"
| "GetSubstitution matched preceding following s = s"

fun indexOf_str :: "string \<Rightarrow> string \<Rightarrow> nat option" where
  "indexOf_str [] sub = (if sub = [] then Some 0 else None)"
| "indexOf_str (c # cs) sub =
     (if startsWith (c # cs) sub then Some 0 else map_option Suc (indexOf_str cs sub))"

text \<open>\<open>s.replace(search, replacement)\<close> for a string \<open>search\<close>: the first occurrence only.\<close>

definition replace_first :: "string \<Rightarrow> string \<Rightarrow> string \<Rightarrow> string" where
  "replace_first s search replacement =
     (case indexOf_str s search of
        None \<Rightarrow> s
      | Some i \<Rightarrow>
          (let preceding = take i s; following = drop (i + length search) s
           in preceding @ GetSubstitution search preceding following replacement @ following))"

text \<open>
  \<open>s.replace(re, replacement)\<close> for a global \<open>re\<close> that matches the text \<open>lit\<close> and
  nothing else: every occurrence, found from left to right without overlap; \<open>preceding\<close>
  is the part of the subject already passed.
\<close>

function replace_all_from :: "string \<Rightarrow> string \<Rightarrow> string \<Rightarrow> string \<Rightarrow> string" where
  "replace_all_from lit replacement preceding s =
     (if s = [] \<or> lit = [] then s
      else if startsWith s lit
      then GetSubstitution lit preceding (drop (length lit) s) replacement
           @ replace_all_from lit replacement (preceding @ lit) (drop (length lit) s)
      else hd s # replace_all_from lit replacement (preceding @ [hd s]) (tl s))"
  by pat_completeness auto
termination
  by (relation "measure (\<lambda>(lit, replacement, preceding, s). length s)") auto

declare replace_all_from.simps [simp del]

text \<open>
  \<open>subject.replace(new RegExp(pattern, 'g'), replacement)\<close>. The regular expression
  engine belongs to the platform. Two classes of patterns are interpreted here. A
  pattern is literal when it is made of characters that are not syntax characters and of
  escaped braces: it matches the text it spells, and that text is not empty. A pattern
  in which no character class is opened and the only escapes are those of braces has
  every \<open>(\<close> opening a group and every \<open>)\<close> closing one: with different numbers of the
  two, the constructor throws a SyntaxError. For every other pattern the functions of
  the engine take what the platform does as their argument \<open>other\<close>, from the pattern,
  the replacement and the subject to the result or the exception; what is proved of
  them holds whatever that argument is.
\<close>

type_synonym regexp_replace = "string \<Rightarrow> string \<Rightarrow> string \<Rightarrow> error + string"

definition syntax_chars :: "char list" where
  "syntax_chars = ''^$.*+?()[]{}|'' @ [backslash]"

fun literal_pattern :: "string \<Rightarrow> string option" where
  "literal_pattern [] = Some []"
| "literal_pattern [c] = (if c \<in> set syntax_chars then None else Some [c])"
| "literal_pattern (c # d # t) =
     (if c = backslash
      then (if d = lbrace \<or> d = rbrace then map_option ((#) d) (literal_pattern t) else None)
      else if c \<in> set syntax_chars then None
      else map_option ((#) c) (literal_pattern (d # t)))"

fun only_brace_escapes :: "string \<Rightarrow> bool" where
  "only_brace_escapes [] = True"
| "only_brace_escapes [c] = (c \<noteq> backslash)"
| "only_brace_escapes (c # d # t) =
     (if c = backslash then (d = lbrace \<or> d = rbrace) \<and> only_brace_escapes t
      else only_brace_escapes (d # t))"

definition unbalanced_groups :: "string \<Rightarrow> bool" where
  "unbalanced_groups p =
     (only_brace_escapes p \<and> CHR ''['' \<notin> set p \<and> count_list p (CHR ''('') \<noteq> count_list p (CHR '')''))"

definition RegExp_replace :: "regexp_replace \<Rightarrow> string \<Rightarrow> string \<Rightarrow> string \<Rightarrow> error + string" where
  "RegExp_replace other pattern replacement subject =
     (case literal_pattern pattern of
        Some lit \<Rightarrow>
          if lit = [] then other pattern replacement subject
          else Inr (replace_all_from lit replacement [] subject)
      | None \<Rightarrow>
          if unbalanced_groups pattern then Inl SyntaxError
          else other pattern replacement subject)"

text \<open>
  The examples need a value for the argument \<open>other\<close>. Their patterns are of the two
  classes that are interpreted, so the argument is not consulted in them and any function
  will do: they are given the one that rejects every pattern.
\<close>

definition rejecting :: regexp_replace where
  "rejecting pattern replacement subject = Inl SyntaxError"

text \<open>
  \<open>processedRow.replace(new RegExp(placeholder.replace(/[{}]/g, '\\$&'), 'g'), replacement)\<close>
\<close>

definition substitute :: "regexp_replace \<Rightarrow> string \<Rightarrow> string \<Rightarrow> string \<Rightarrow> error + string" where
  "substitute other processedRow placeholder replacement =
     RegExp_replace other (escape_braces placeholder) replacement processedRow"

section \<open>Script variants\<close>

datatype tab_kind = All | WithoutNull | WithNull | Batch

record SqlTab =
  tab_id :: string
  tab_name :: string
  script :: string
  rowCount :: nat
  tab_type :: tab_kind

section \<open>The template validator\<close>

definition validateSqlTemplate :: "string \<Rightarrow> string list" where
  "validateSqlTemplate template =
     (if trim template = [] then [''SQL template cannot be empty'']
      else if match_all match_aggregate_at template \<noteq> [] then []
      else (if includes_str (toLowerCase template) ''insert into''
               \<and> \<not> includes_str (toLowerCase template) ''values''
            then [''INSERT statements must contain 'VALUES' clause''] else [])
         @ (if includes_str (toLowerCase template) ''insert into'' \<and> values_match template = None
            then [''Invalid VALUES clause format. Use: VALUES ({placeholder})''] else []))"

section \<open>Aggregate mode\<close>

text \<open>\<open>value !== null && value !== undefined\<close>\<close>

definition is_present :: "scalar option \<Rightarrow> bool" where
  "is_present v = (v \<noteq> None \<and> v \<noteq> Some Null)"

text \<open>\<open>===\<close> on what a field lookup returns; NaN is not equal to itself.\<close>

definition strict_eq :: "scalar option \<Rightarrow> scalar option \<Rightarrow> bool" where
  "strict_eq a b = (a = b \<and> a \<noteq> Some (Num NaN))"

fun indexOf :: "scalar option list \<Rightarrow> scalar option \<Rightarrow> nat option" where
  "indexOf [] v = None"
| "indexOf (x # xs) v = (if strict_eq x v then Some 0 else map_option Suc (indexOf xs v))"

definition format_value :: "scalar option \<Rightarrow> string" where
  "format_value v =
     (case v of None \<Rightarrow> ''undefined'' | Some (Str s) \<Rightarrow> sql_quote s | Some x \<Rightarrow> String_js x)"

text \<open>
  The chain \<open>jsonData.map(row => row[key]).filter(...).map(...)\<close>: the values of the
  column that are present, each at its first occurrence, formatted.
\<close>

definition unique_values :: "row list \<Rightarrow> string \<Rightarrow> string list" where
  "unique_values jsonData key =
     (let arr = map (\<lambda>row. map_of row key) jsonData
      in map (\<lambda>(v, index). format_value v)
           (filter (\<lambda>(v, index). is_present v \<and> indexOf arr v = Some index)
              (zip arr [0 ..< length arr])))"

text \<open>The first \<open>forEach\<close>, which builds the script of the tab ALL.\<close>

definition processedTemplate_all :: "row list \<Rightarrow> string list \<Rightarrow> string \<Rightarrow> string" where
  "processedTemplate_all jsonData doubleCurlyMatches sqlTemplate =
     fold (\<lambda>placeholder processedTemplate.
             (let key = strip_double_braces placeholder;
                  allValues = unique_values jsonData key
              in replace_first processedTemplate placeholder (join '','' allValues)))
       doubleCurlyMatches sqlTemplate"

text \<open>The second \<open>forEach\<close>, which builds the script of the tab without NULL values.\<close>

definition withoutNullTemplate :: "row list \<Rightarrow> string list \<Rightarrow> string \<Rightarrow> string" where
  "withoutNullTemplate jsonData doubleCurlyMatches sqlTemplate =
     fold (\<lambda>placeholder withoutNull.
             (let key = strip_double_braces placeholder;
                  valuesWithoutNull = unique_values jsonData key
              in replace_first withoutNull placeholder (join '','' valuesWithoutNull)))
       doubleCurlyMatches sqlTemplate"

definition hasNonNullValues :: "row list \<Rightarrow> string list \<Rightarrow> bool" where
  "hasNonNullValues jsonData doubleCurlyMatches =
     list_ex (\<lambda>placeholder.
        list_ex (\<lambda>row. is_present (map_of row (strip_double_braces placeholder))) jsonData)
       doubleCurlyMatches"

definition rows_without_null :: "row list \<Rightarrow> string list \<Rightarrow> row list" where
  "rows_without_null jsonData doubleCurlyMatches =
     filter (\<lambda>row.
        list_all (\<lambda>placeholder. is_present (map_of row (strip_double_braces placeholder)))
          doubleCurlyMatches)
       jsonData"

definition aggregate_tabs :: "row list \<Rightarrow> string \<Rightarrow> string list \<Rightarrow> SqlTab list" where
  "aggregate_tabs jsonData sqlTemplate doubleCurlyMatches =
     (let tabs = [\<lparr>tab_id = ''all'', tab_name = ''ALL'',
                   script = processedTemplate_all jsonData doubleCurlyMatches sqlTemplate,
                   rowCount = length jsonData, tab_type = All\<rparr>]
      in if hasNonNullValues jsonData doubleCurlyMatches
         then tabs @ [\<lparr>tab_id = ''without-null'', tab_name = ''Without NULL values'',
                        script = withoutNullTemplate jsonData doubleCurlyMatches sqlTemplate,
                        rowCount = length (rows_without_null jsonData doubleCurlyMatches),
                        tab_type = WithoutNull\<rparr>]
         else tabs)"

section \<open>Per-row mode\<close>

text \<open>
  The replacement text of a placeholder. The loops that build ALL, the batches and the
  free statements test \<open>undefined\<close> only; the loop that separates the rows tests
  \<open>undefined\<close> and \<open>null\<close>, and says whether it met one.
\<close>

definition replacement_all :: "scalar option \<Rightarrow> string" where
  "replacement_all replacementValue =
     (case replacementValue of
        None \<Rightarrow> ''NULL''
      | Some (Str s) \<Rightarrow> sql_quote s
      | Some x \<Rightarrow> String_js x)"

definition replacement_split :: "scalar option \<Rightarrow> bool \<times> string" where
  "replacement_split replacementValue =
     (case replacementValue of
        None \<Rightarrow> (True, ''NULL'')
      | Some Null \<Rightarrow> (True, ''NULL'')
      | Some (Str s) \<Rightarrow> (False, sql_quote s)
      | Some x \<Rightarrow> (False, String_js x))"

fun substitute_all :: "regexp_replace \<Rightarrow> row \<Rightarrow> string list \<Rightarrow> string \<Rightarrow> error + string" where
  "substitute_all other row [] processedRow = Inr processedRow"
| "substitute_all other row (placeholder # placeholders) processedRow =
     (case substitute other processedRow placeholder
             (replacement_all (map_of row (strip_braces placeholder))) of
        Inl e \<Rightarrow> Inl e
      | Inr r \<Rightarrow> substitute_all other row placeholders r)"

fun substitute_split :: "regexp_replace \<Rightarrow> row \<Rightarrow> string list \<Rightarrow> string \<Rightarrow> bool
                           \<Rightarrow> error + (string \<times> bool)" where
  "substitute_split other row [] processedRow hasNull = Inr (processedRow, hasNull)"
| "substitute_split other row (placeholder # placeholders) processedRow hasNull =
     (let (isNull, replacement) = replacement_split (map_of row (strip_braces placeholder))
      in case substitute other processedRow placeholder replacement of
           Inl e \<Rightarrow> Inl e
         | Inr r \<Rightarrow> substitute_split other row placeholders r (hasNull \<or> isNull))"

text \<open>\<open>map\<close> with a callback that may throw: the first exception ends it.\<close>

fun map_error :: "('a \<Rightarrow> error + 'b) \<Rightarrow> 'a list \<Rightarrow> error + 'b list" where
  "map_error f [] = Inr []"
| "map_error f (x # xs) =
     (case f x of
        Inl e \<Rightarrow> Inl e
      | Inr y \<Rightarrow> (case map_error f xs of Inl e \<Rightarrow> Inl e | Inr ys \<Rightarrow> Inr (y # ys)))"

definition value_row :: "regexp_replace \<Rightarrow> string \<Rightarrow> row \<Rightarrow> error + string" where
  "value_row other rowTemplate row =
     (case substitute_all other row (match_all match_placeholder_at rowTemplate) rowTemplate of
        Inl e \<Rightarrow> Inl e
      | Inr processedRow \<Rightarrow> Inr (''('' @ processedRow @ '')''))"

definition value_rows :: "regexp_replace \<Rightarrow> string \<Rightarrow> row list \<Rightarrow> error + string" where
  "value_rows other rowTemplate rows =
     (case map_error (value_row other rowTemplate) rows of
        Inl e \<Rightarrow> Inl e
      | Inr rowStrings \<Rightarrow> Inr (join [CHR '','', newline] rowStrings))"

fun split_rows :: "regexp_replace \<Rightarrow> string \<Rightarrow> row list \<Rightarrow> string list \<Rightarrow> string list
                     \<Rightarrow> error + (string list \<times> string list)" where
  "split_rows other rowTemplate [] rowsWithoutNull rowsWithNull =
     Inr (rowsWithoutNull, rowsWithNull)"
| "split_rows other rowTemplate (row # rows) rowsWithoutNull rowsWithNull =
     (case substitute_split other row (match_all match_placeholder_at rowTemplate) rowTemplate False of
        Inl e \<Rightarrow> Inl e
      | Inr (processedRow, hasNull) \<Rightarrow>
          (let rowString = ''('' @ processedRow @ '')''
           in if hasNull
              then split_rows other rowTemplate rows rowsWithoutNull (rowsWithNull @ [rowString])
              else split_rows other rowTemplate rows (rowsWithoutNull @ [rowString]) rowsWithNull))"

definition statement_rows :: "regexp_replace \<Rightarrow> string \<Rightarrow> row list \<Rightarrow> error + string" where
  "statement_rows other processedTemplate rows =
     (case map_error
             (\<lambda>row. substitute_all other row (match_all match_placeholder_at processedTemplate)
                       processedTemplate) rows of
        Inl e \<Rightarrow> Inl e
      | Inr statements \<Rightarrow> Inr (join [newline] statements))"

text \<open>\<open>xs.slice(start, fin)\<close>, with the negative indices counted from the end.\<close>

definition slice :: "'a list \<Rightarrow> int \<Rightarrow> int \<Rightarrow> 'a list" where
  "slice xs start fin =
     (let len = int (length xs);
          k = (if start < 0 then max (len + start) 0 else min start len);
          final = (if fin < 0 then max (len + fin) 0 else min fin len)
      in take (nat (final - k)) (drop (nat k) xs))"

text \<open>\<open>Math.floor(i / batchSize) + 1\<close>\<close>

definition batchNumber :: "int \<Rightarrow> int \<Rightarrow> jsnum" where
  "batchNumber i batchSize =
     (if batchSize = 0 then (if i = 0 then NaN else if 0 < i then PosInf else NegInf)
      else Fin (i div batchSize + 1) 0)"

definition batch_tab :: "string \<Rightarrow> string \<Rightarrow> jsnum \<Rightarrow> nat \<Rightarrow> SqlTab" where
  "batch_tab insertStatement batchValueRows n len =
     \<lparr>tab_id = ''batch-'' @ Number_toString n, tab_name = ''Batch '' @ Number_toString n,
      script = insertStatement @ batchValueRows, rowCount = len, tab_type = Batch\<rparr>"

text \<open>
  The loop \<open>for (let i = 0; i < jsonData.length; i += batchSize)\<close>. It need not end, so
  its result is an option: \<open>None\<close> stands for a run that never returns.
\<close>

partial_function (option) batch_loop ::
  "regexp_replace \<Rightarrow> row list \<Rightarrow> string \<Rightarrow> string \<Rightarrow> int \<Rightarrow> int \<Rightarrow> SqlTab list
     \<Rightarrow> (error + SqlTab list) option" where
  "batch_loop other jsonData rowTemplate insertStatement batchSize i tabs =
     (if i < int (length jsonData)
      then (let batchData = slice jsonData i (i + batchSize)
            in case value_rows other rowTemplate batchData of
                 Inl e \<Rightarrow> Some (Inl e)
               | Inr batchValueRows \<Rightarrow>
                   batch_loop other jsonData rowTemplate insertStatement batchSize (i + batchSize)
                     (if batchValueRows \<noteq> []
                      then tabs @ [batch_tab insertStatement batchValueRows
                                     (batchNumber i batchSize) (length batchData)]
                      else tabs))
      else Some (Inr tabs))"

declare batch_loop.simps [code]

definition initial_tabs :: "string \<Rightarrow> string \<Rightarrow> nat \<Rightarrow> string list \<Rightarrow> string list \<Rightarrow> SqlTab list" where
  "initial_tabs insertStatement allValueRows n rowsWithoutNull rowsWithNull =
     [\<lparr>tab_id = ''all'', tab_name = ''ALL'', script = insertStatement @ allValueRows,
       rowCount = n, tab_type = All\<rparr>]
     @ (if rowsWithoutNull \<noteq> []
        then [\<lparr>tab_id = ''without-null'', tab_name = ''Without NULL values'',
                script = insertStatement @ join [CHR '','', newline] rowsWithoutNull,
                rowCount = length rowsWithoutNull, tab_type = WithoutNull\<rparr>]
        else [])
     @ (if rowsWithNull \<noteq> []
        then [\<lparr>tab_id = ''with-null'', tab_name = ''With NULL values'',
                script = insertStatement @ join [CHR '','', newline] rowsWithNull,
                rowCount = length rowsWithNull, tab_type = WithNull\<rparr>]
        else [])"

definition no_values_clause :: "string list" where
  "no_values_clause = [''Invalid SQL template. Could not find a 'VALUES (...)' clause.'']"

text \<open>The prefix that is kept: the statement up to the match, or a bare \<open>VALUES\<close>.\<close>

definition insertStatement_of :: "string \<Rightarrow> nat \<Rightarrow> string" where
  "insertStatement_of processedTemplate index =
     (if includes_str (toLowerCase processedTemplate) ''insert into''
      then take index processedTemplate @ ''VALUES'' @ [newline]
      else ''VALUES'' @ [newline])"

definition generateSqlTabs ::
  "regexp_replace \<Rightarrow> row list \<Rightarrow> int \<Rightarrow> string \<Rightarrow> (error + SqlTab list) option" where
  "generateSqlTabs other jsonData batchSize processedTemplate =
     (if includes_str (toLowerCase processedTemplate) ''values''
      then (case values_match processedTemplate of
              None \<Rightarrow> Some (Inl (Messages no_values_clause))
            | Some (index, rowTemplate) \<Rightarrow>
                if rowTemplate = [] then Some (Inl (Messages no_values_clause))
                else (let insertStatement = insertStatement_of processedTemplate index
                      in case value_rows other rowTemplate jsonData of
                           Inl e \<Rightarrow> Some (Inl e)
                         | Inr allValueRows \<Rightarrow>
                             (case split_rows other rowTemplate jsonData [] [] of
                                Inl e \<Rightarrow> Some (Inl e)
                              | Inr (rowsWithoutNull, rowsWithNull) \<Rightarrow>
                                  (let tabs = initial_tabs insertStatement allValueRows
                                                (length jsonData) rowsWithoutNull rowsWithNull
                                   in if batchSize < int (length jsonData)
                                      then batch_loop other jsonData rowTemplate insertStatement
                                             batchSize 0 tabs
                                      else Some (Inr tabs)))))
      else (case statement_rows other processedTemplate jsonData of
              Inl e \<Rightarrow> Some (Inl e)
            | Inr singleScript \<Rightarrow>
                Some (Inr [\<lparr>tab_id = ''all'', tab_name = ''ALL'', script = singleScript,
                            rowCount = length jsonData, tab_type = All\<rparr>])))"

text \<open>
  \<open>generateSqlScript\<close> as a function of the state it reads (\<open>jsonData\<close>, \<open>sqlTemplate\<close>,
  \<open>batchSize\<close>): the tabs it hands to \<open>setSqlTabs\<close>, or the error it stops with.
\<close>

definition generateSqlScript ::
  "regexp_replace \<Rightarrow> row list option \<Rightarrow> string \<Rightarrow> int \<Rightarrow> (error + SqlTab list) option" where
  "generateSqlScript other jsonData sqlTemplate batchSize =
     (case jsonData of
        None \<Rightarrow> Some (Inl (Messages [''JSON data is not loaded'']))
      | Some rows \<Rightarrow>
          (let templateErrors = validateSqlTemplate sqlTemplate
           in if templateErrors \<noteq> [] then Some (Inl (Messages templateErrors))
              else (let doubleCurlyMatches = match_all match_aggregate_at sqlTemplate
                    in if doubleCurlyMatches \<noteq> []
                       then Some (Inr (aggregate_tabs rows sqlTemplate doubleCurlyMatches))
                       else generateSqlTabs other rows batchSize sqlTemplate)))"

text \<open>
  The batch size is the state that the \<open>onChange\<close> handler of the batch size input
  sets, \<open>setBatchSize(Number(e.target.value))\<close>: the Number of the text of the input,
  whatever the \<open>min\<close> attribute of the input says.
\<close>

definition onChange_batchSize :: "string \<Rightarrow> jsnum" where
  "onChange_batchSize input_value = Number_js input_value"

section \<open>Loading data\<close>

definition validateJson :: "json \<Rightarrow> string list" where
  "validateJson data =
     (case data of
        Arr xs \<Rightarrow>
          (case xs of
             [] \<Rightarrow> [''JSON array cannot be empty'']
           | x # _ \<Rightarrow> (case x of Scalar _ \<Rightarrow> [''Array elements must be objects''] | _ \<Rightarrow> []))
      | _ \<Rightarrow> [''JSON must be an array of objects''])"

text \<open>
  \<open>JSON.parse\<close> belongs to the platform. The functions that call it take its outcome on
  the text as an argument: \<open>Inr\<close> the value, or \<open>Inl\<close> the message of the exception.
\<close>

type_synonym json_outcome = "string + json"

text \<open>\<open>error.message\<close>; for the TypeError of a property read on \<open>null\<close>, in the words of V8.\<close>

definition error_message :: "error \<Rightarrow> string" where
  "error_message e =
     (case e of
        Error m \<Rightarrow> m
      | TypeError \<Rightarrow> ''Cannot read properties of null (reading 'collectPoints')''
      | SyntaxError \<Rightarrow> ''Invalid regular expression''
      | Messages ms \<Rightarrow> concat ms)"

definition parseDataText :: "json_outcome \<Rightarrow> string \<Rightarrow> error + json" where
  "parseDataText parsed text =
     (case parsed of
        Inr data \<Rightarrow> Inr (case data of Arr xs \<Rightarrow> data | _ \<Rightarrow> Arr [data])
      | Inl m \<Rightarrow>
          if CHR 0x09 \<in> set text
          then (case parseTSV text of Inl e \<Rightarrow> Inl e | Inr rows \<Rightarrow> Inr (json_of_rows rows))
          else (case parseCSV text of Inl e \<Rightarrow> Inl e | Inr rows \<Rightarrow> Inr (json_of_rows rows)))"

record state =
  jsonData :: "json option"
  sqlTabs :: "SqlTab list"
  activeTab :: nat
  errors :: "string list"
  fileName :: string
  isLoading :: bool

definition processManualData :: "json_outcome \<Rightarrow> string \<Rightarrow> state \<Rightarrow> state" where
  "processManualData parsed manualData s =
     (if trim manualData = [] then s\<lparr>errors := [''Please enter some data'']\<rparr>
      else (let s1 = s\<lparr>isLoading := True, errors := [], fileName := ''Manual Input''\<rparr>
            in case parseDataText parsed manualData of
                 Inr processedData \<Rightarrow>
                   (let validationErrors = validateJson processedData
                    in if validationErrors \<noteq> []
                       then s1\<lparr>errors := validationErrors, jsonData := None, isLoading := False\<rparr>
                       else s1\<lparr>jsonData := Some processedData, sqlTabs := [], activeTab := 0,
                               isLoading := False\<rparr>)
               | Inl e \<Rightarrow>
                   s1\<lparr>errors := [''Invalid data format: '' @ error_message e], jsonData := None,
                       isLoading := False\<rparr>))"

text \<open>
  The choice of the parser in \<open>onDrop\<close>, by the extension of the file name. In the JSON
  branch \<open>data.collectPoints\<close> is read: on \<open>null\<close> that is a TypeError, on a value that
  is not an object it is \<open>undefined\<close>.
\<close>

definition onDrop_parse :: "string \<Rightarrow> json_outcome \<Rightarrow> string \<Rightarrow> error + json" where
  "onDrop_parse name parsed text =
     (if endsWith (toLowerCase name) ''.csv''
      then (case parseCSV text of Inl e \<Rightarrow> Inl e | Inr rows \<Rightarrow> Inr (json_of_rows rows))
      else if endsWith (toLowerCase name) ''.tsv'' \<or> endsWith (toLowerCase name) ''.txt''
      then (case parseTSV text of Inl e \<Rightarrow> Inl e | Inr rows \<Rightarrow> Inr (json_of_rows rows))
      else (case parsed of
              Inl m \<Rightarrow> Inl (Error m)
            | Inr data \<Rightarrow>
                (case data of
                   Scalar v \<Rightarrow> if v = Null then Inl TypeError else Inr data
                 | Arr xs \<Rightarrow> Inr data
                 | Obj members \<Rightarrow>
                     (case map_of members ''collectPoints'' of
                        Some (Arr points) \<Rightarrow> Inr (Arr points)
                      | _ \<Rightarrow> Inr data))))"

definition onDrop :: "string \<Rightarrow> json_outcome \<Rightarrow> string \<Rightarrow> state \<Rightarrow> state" where
  "onDrop name parsed text s =
     (let s1 = s\<lparr>isLoading := True, errors := [], fileName := name\<rparr>
      in case onDrop_parse name parsed text of
           Inr processedData \<Rightarrow>
             (let validationErrors = validateJson processedData
              in if validationErrors \<noteq> []
                 then s1\<lparr>errors := validationErrors, jsonData := None, isLoading := False\<rparr>
                 else s1\<lparr>jsonData := Some processedData, sqlTabs := [], activeTab := 0,
                         isLoading := False\<rparr>)
         | Inl e \<Rightarrow>
             s1\<lparr>errors := [''Invalid file format: '' @ error_message e], jsonData := None,
                 isLoading := False\<rparr>)"

text \<open>A state with a RowSet loaded and a script generated, for the examples.\<close>

definition loaded_state :: state where
  "loaded_state =
     \<lparr>jsonData = Some (Arr [Obj [(''id'', Scalar (Num (Fin 1 0)))]]),
      sqlTabs = [\<lparr>tab_id = ''all'', tab_name = ''ALL'', script = ''SELECT 1'', rowCount = 1,
                  tab_type = All\<rparr>],
      activeTab = 0, errors = [], fileName = ''data.json'', isLoading = False\<rparr>"

section \<open>Chunks and example data\<close>

text \<open>
  The partition that the specification describes for the batches: consecutive chunks of
  \<open>n\<close> elements, the last one possibly shorter, none of them empty.
\<close>

function chunks :: "nat \<Rightarrow> 'a list \<Rightarrow> 'a list list" where
  "chunks n xs = (if n = 0 \<or> xs = [] then [] else take n xs # chunks n (drop n xs))"
  by pat_completeness auto
termination
  by (relation "measure (\<lambda>(n, xs). length xs)") auto

declare chunks.simps [simp del]

text \<open>The RowSet and the template of the scenario of the specification.\<close>

definition scenario_rows :: "row list" where
  "scenario_rows =
     [[(''id'', Num (Fin 1 0)), (''name'', Str ''A'')], [(''id'', Num (Fin 2 0)), (''name'', Null)]]"

definition scenario_template :: string where
  "scenario_template = ''INSERT INTO t (id,name) VALUES ({id},{name});''"

text \<open>Three rows, and the tabs that \<open>VALUES ({id})\<close> gives for them with a batch size of 2.\<close>

definition three_rows :: "row list" where
  "three_rows = [[(''id'', Num (Fin 1 0))], [(''id'', Num (Fin 2 0))], [(''id'', Num (Fin 3 0))]]"


definition two_rows :: "row list" where
  "two_rows = [[(''id'', Num (Fin 1 0))], [(''id'', Num (Fin 2 0))]]"

text \<open>The rows of the aggregate scenario, and the tabs of \<open>WHERE id IN ({{id}})\<close>.\<close>

definition id_rows :: "row list" where
  "id_rows = [[(''id'', Num (Fin 1 0))], [(''id'', Num (Fin 2 0))], [(''id'', Num (Fin 1 0))]]"

definition id_rows_tabs :: "SqlTab list" where
  "id_rows_tabs =
     [\<lparr>tab_id = ''all'', tab_name = ''ALL'', script = ''WHERE id IN (1,2)'', rowCount = 3,
       tab_type = All\<rparr>,
      \<lparr>tab_id = ''without-null'', tab_name = ''Without NULL values'',
       script = ''WHERE id IN (1,2)'', rowCount = 3, tab_type = WithoutNull\<rparr>]"

text \<open>
  A placeholder without the syntax characters of regular expressions, braces apart, and
  the placeholders that the per-row engine takes from a template.
\<close>

definition plain_placeholder :: "string \<Rightarrow> bool" where
  "plain_placeholder p = (\<forall>c \<in> set p. c \<notin> set ''^$.*+?()[]|'' \<and> c \<noteq> backslash)"

definition template_placeholders :: "string \<Rightarrow> string list" where
  "template_placeholders tmpl =
     (if includes_str (toLowerCase tmpl) ''values''
      then (case values_match tmpl of
              Some (index, rowTemplate) \<Rightarrow> match_all match_placeholder_at rowTemplate
            | None \<Rightarrow> [])
      else match_all match_placeholder_at tmpl)"

section \<open>Printing and reading integers\<close>

lemma digit_char_is_digit: "d < 10 \<Longrightarrow> is_digit (digit_char d)"
  by (simp add: is_digit_def digit_char_def del: set_simps)


lemma show_digits_digits: "show_digits n \<noteq> [] \<and> list_all is_digit (show_digits n)"
proof (induction n rule: show_digits.induct)
  case (1 n)
  show ?case
  proof (cases "n < 10")
    case True
    then have "nat n < 10" by simp
    with True show ?thesis
      by (subst show_digits.simps, subst show_digits.simps) (simp add: digit_char_is_digit)
  next
    case False
    have "nat (n mod 10) < 10" by simp
    with 1 False show ?thesis
      by (subst show_digits.simps, subst show_digits.simps) (simp add: digit_char_is_digit)
  qed
qed



subsection \<open>Rounding to binary64\<close>

lemma bitlen_nonpos: "n \<le> 0 \<Longrightarrow> bitlen n = 0"
  by (subst bitlen.simps) simp

lemma bitlen_pos: "0 < n \<Longrightarrow> bitlen n = Suc (bitlen (n div 2))"
  by (subst bitlen.simps) simp

lemma bitlen_le: "n < 2 ^ k \<Longrightarrow> bitlen n \<le> k"
proof (induction k arbitrary: n)
  case 0
  then show ?case by (simp add: bitlen_nonpos)
next
  case (Suc k)
  show ?case
  proof (cases "0 < n")
    case True
    from Suc.prems have "n div 2 < 2 ^ k" by simp
    from Suc.IH [OF this] True show ?thesis by (simp add: bitlen_pos)
  next
    case False
    then show ?thesis by (simp add: bitlen_nonpos)
  qed
qed

lemma bitlen_lower: "0 < n \<Longrightarrow> 2 ^ (bitlen n - 1) \<le> n"
proof (induction n rule: bitlen.induct)
  case (1 n)
  show ?case
  proof (cases "0 < n div 2")
    case True
    with 1 have ih: "2 ^ (bitlen (n div 2) - 1) \<le> n div 2" by simp
    from True have "bitlen (n div 2) = Suc (bitlen (n div 2) - 1)" by (simp add: bitlen_pos)
    then have "(2::int) ^ bitlen (n div 2) = 2 * 2 ^ (bitlen (n div 2) - 1)"
      by (metis power_Suc)
    with ih have "(2::int) ^ bitlen (n div 2) \<le> 2 * (n div 2)" by simp
    also have "\<dots> \<le> n" by simp
    finally show ?thesis using 1(2) by (simp add: bitlen_pos)
  next
    case False
    then have "bitlen (n div 2) = 0" by (simp add: bitlen_nonpos)
    with 1(2) show ?thesis by (simp add: bitlen_pos)
  qed
qed

lemma normalise_pow10: "normalise (n * 10 ^ j) j = Fin n 0"
  by (induction j arbitrary: n) simp_all

text \<open>An integer below \<open>2^53\<close> is a binary64 value: rounding leaves it as it is.\<close>

lemma round_exact:
  assumes "0 \<le> n" "n < 2 ^ 53"
  shows "round_binary64 n 1 = Fin n 0"
proof (cases "n = 0")
  case True
  then show ?thesis by (simp add: round_binary64_def)
next
  case False
  with assms have pos: "0 < n" by simp
  have b1: "bitlen 1 = 1" by (simp add: bitlen_pos bitlen_nonpos)
  from pos have bp: "1 \<le> bitlen n" by (simp add: bitlen_pos)
  from assms(2) have bu: "bitlen n \<le> 53" by (rule bitlen_le)
  define j where "j = 53 - bitlen n"
  from bp bu have j: "j \<le> 52" "int (bitlen n) = 53 - int j" by (simp_all add: j_def)
  have e: "floor_log2 n 1 = int (bitlen n) - 1"
    using bitlen_lower [OF pos] bp by (simp add: floor_log2_def b1 nat_diff_distrib)
  have q: "max (floor_log2 n 1 - 52) (- 1074) = - int j"
    using j by (simp add: e)
  have "n * 2 ^ j < 2 ^ 53 * 2 ^ 52"
  proof -
    have "n * 2 ^ j < 2 ^ 53 * 2 ^ j" using assms by simp
    also have "\<dots> \<le> 2 ^ 53 * (2::int) ^ 52"
      using j(1) by (intro mult_left_mono power_increasing) simp_all
    finally show ?thesis .
  qed
  then have "n * 2 ^ j < 2 ^ 105" by simp
  then have bs: "bitlen (n * 2 ^ j) \<le> 105" by (rule bitlen_le)
  have ten: "n * 2 ^ j * 5 ^ j = n * 10 ^ j"
    by (simp add: power_mult_distrib [symmetric])
  show ?thesis
  proof (cases "j = 0")
    case True
    with False bs show ?thesis
      unfolding round_binary64_def q by (simp add: Let_def)
  next
    case f: False
    with False bs show ?thesis
      unfolding round_binary64_def q by (simp add: Let_def ten normalise_pow10)
  qed
qed
















subsection \<open>The digits of an integer\<close>

lemma show_digits_times10: "0 < s \<Longrightarrow> show_digits (s * 10) = show_digits s @ ''0''"
  by (subst show_digits.simps) (simp add: digit_char_def)

lemma show_digits_pow10: "0 < s \<Longrightarrow> show_digits (s * 10 ^ j) = show_digits s @ replicate j (CHR ''0'')"
proof (induction j)
  case 0
  then show ?case by simp
next
  case (Suc j)
  from Suc.prems have "0 < s * 10 ^ j" by simp
  from show_digits_times10 [OF this] Suc show ?case
    by (simp add: replicate_append_same mult.assoc mult.commute [of 10])
qed

lemma show_digits_length_lower: "0 < n \<Longrightarrow> 10 ^ (length (show_digits n) - 1) \<le> n"
proof (induction n rule: show_digits.induct)
  case (1 n)
  show ?case
  proof (cases "n < 10")
    case True
    with 1(2) show ?thesis by (subst show_digits.simps) simp
  next
    case False
    then have p: "0 < n div 10" by simp
    with 1(1) False have ih: "10 ^ (length (show_digits (n div 10)) - 1) \<le> n div 10" by simp
    have ne: "show_digits (n div 10) \<noteq> []" using show_digits_digits by blast
    then have "length (show_digits (n div 10)) = Suc (length (show_digits (n div 10)) - 1)"
      by (cases "show_digits (n div 10)") simp_all
    then have "(10::int) ^ length (show_digits (n div 10)) = 10 * 10 ^ (length (show_digits (n div 10)) - 1)"
      by (metis power_Suc)
    with ih have "(10::int) ^ length (show_digits (n div 10)) \<le> 10 * (n div 10)" by simp
    also have "\<dots> \<le> n" by simp
    finally show ?thesis using False by (subst show_digits.simps) simp
  qed
qed

lemma digits_of_length_int:
  assumes m: "0 < m" "m < 2 ^ 52" and k: "1 \<le> k" "k \<le> l" and l: "10 ^ (l - 1) \<le> m"
  shows "digits_of_length (Fin m 0) m 1 (int l) k =
           (if (m div 10 ^ (l - k)) * 10 ^ (l - k) = m then Some (m div 10 ^ (l - k), int l) else None)"
proof -
  define up :: int where "up = 10 ^ (l - k)"
  define lo where "lo = m div up"
  have up0: "0 < up" by (simp add: up_def)
  have "up \<le> 10 ^ (l - 1)" unfolding up_def using k by (intro power_increasing) simp_all
  with l have upm: "up \<le> m" by simp
  have lo0: "0 \<le> lo" using m up0 by (simp add: lo_def pos_imp_zdiv_nonneg_iff)
  have lom: "lo * up \<le> m" using up0 by (simp add: lo_def minus_mod_eq_div_mult [symmetric])
  have him: "m < (lo + 1) * up"
  proof -
    have "m = lo * up + m mod up" by (simp add: lo_def)
    moreover have "m mod up < up" using up0 by simp
    ultimately show ?thesis by (simp add: algebra_simps)
  qed
  have hib: "(lo + 1) * up < 2 ^ 53"
  proof -
    have "(lo + 1) * up = lo * up + up" by (simp add: algebra_simps)
    also have "\<dots> \<le> m + m" using lom upm by simp
    also have "\<dots> < 2 ^ 53" using m by simp
    finally show ?thesis .
  qed
  have r1: "round_binary64 (lo * up) 1 = Fin (lo * up) 0"
    using lo0 up0 lom m by (intro round_exact) simp_all
  have r2: "round_binary64 ((lo + 1) * up) 1 = Fin ((lo + 1) * up) 0"
    using lo0 up0 hib by (intro round_exact) simp_all
  have n1: "nat (int l - int k) = l - k" by simp
  have n2: "nat (int k - int l) = 0" using k by simp
  show ?thesis
    unfolding digits_of_length_def n1 n2 Let_def
    using r1 r2 him by (simp add: up_def [symmetric] lo_def [symmetric])
qed

lemma first_digits_int:
  assumes m: "0 < m" "m < 2 ^ 52" and l: "10 ^ (l - 1) \<le> m" "l < 18"
  shows "1 \<le> i \<Longrightarrow> i \<le> l \<Longrightarrow>
         \<exists>s k. first_digits (Fin m 0) m 1 (int l) [i ..< 18] = Some (s, k, int l) \<and> k \<le> l
               \<and> s * 10 ^ (l - k) = m"
proof (induction "l - i" arbitrary: i)
  case 0
  then have il: "i = l" by simp
  from l 0 have u: "[i ..< 18] = i # [Suc i ..< 18]" by (simp add: upt_conv_Cons)
  from digits_of_length_int [OF m, of i l] 0 l il
  have "digits_of_length (Fin m 0) m 1 (int l) i = Some (m, int l)" by simp
  then show ?case unfolding u using il by simp
next
  case (Suc d)
  then have il: "i < l" by simp
  with l have u: "[i ..< 18] = i # [Suc i ..< 18]" by (simp add: upt_conv_Cons)
  show ?case
  proof (cases "(m div 10 ^ (l - i)) * 10 ^ (l - i) = m")
    case True
    with digits_of_length_int [OF m, of i l] Suc.prems l
    have "digits_of_length (Fin m 0) m 1 (int l) i = Some (m div 10 ^ (l - i), int l)" by simp
    then show ?thesis unfolding u using True il by simp
  next
    case False
    with digits_of_length_int [OF m, of i l] Suc.prems l
    have "digits_of_length (Fin m 0) m 1 (int l) i = None" by simp
    moreover from Suc.hyps(2) have "d = l - Suc i" by simp
    from Suc.hyps(1) [OF this] il
    have "\<exists>s k. first_digits (Fin m 0) m 1 (int l) [Suc i ..< 18] = Some (s, k, int l) \<and> k \<le> l
               \<and> s * 10 ^ (l - k) = m" by simp
    ultimately show ?thesis unfolding u by simp
  qed
qed

text \<open>An integer below \<open>2^52\<close> in magnitude prints as its decimal numeral.\<close>

lemma Number_toString_int:
  assumes "\<bar>m\<bar> < 2 ^ 52"
  shows "Number_toString (Fin m 0) = show_int m"
proof (cases "m = 0")
  case True
  then show ?thesis
    by (simp add: Number_toString_def show_int_def show_digits.simps digit_char_def)
next
  case False
  define a where "a = \<bar>m\<bar>"
  from False assms have a: "0 < a" "a < 2 ^ 52" by (simp_all add: a_def)
  define l where "l = length (show_digits a)"
  have ll: "10 ^ (l - 1) \<le> a" unfolding l_def using a(1) by (rule show_digits_length_lower)
  have l1: "1 \<le> l" unfolding l_def using show_digits_digits [of a] by (cases "show_digits a") simp_all
  have l18: "l < 18"
  proof (rule ccontr)
    assume "\<not> l < 18"
    then have "17 \<le> l - 1" by simp
    then have "(10::int) ^ 17 \<le> 10 ^ (l - 1)" by (intro power_increasing) simp_all
    with ll a(2) show False by simp
  qed
  have de: "decimal_exponent a 1 = int l"
    using a(1) by (simp add: decimal_exponent_def l_def)
  from first_digits_int [OF a ll l18, of 1] l1
  obtain s k where f: "first_digits (Fin a 0) a 1 (int l) [1 ..< 18] = Some (s, k, int l)"
    and kl: "k \<le> l" and sm: "s * 10 ^ (l - k) = a" by auto
  from sm a(1) have "0 < s * 10 ^ (l - k)" by simp
  then have s0: "0 < s" by (simp add: zero_less_mult_iff)
  have sd: "shortest_digits a 0 = (s, k, int l)"
    using f by (simp add: shortest_digits_def de)
  have fd: "format_digits s k (int l) = show_digits a"
    using kl l18 show_digits_pow10 [OF s0, of "l - k"] sm by (simp add: format_digits_def)
  have "Number_toString (Fin m 0) = (if m < 0 then ''-'' else []) @ show_digits a"
    using False by (simp add: Number_toString_def a_def [symmetric] sd fd)
  then show ?thesis
    by (simp add: show_int_def a_def)
qed


subsection \<open>Equations for evaluation\<close>

text \<open>
  The two facts above, as the equations by which rounding and printing are evaluated:
  an integer in their range takes no search.
\<close>

lemma round_binary64_code [code]:
  "round_binary64 n d =
     (if d = 1 \<and> 0 \<le> n \<and> n < 9007199254740992 then Fin n 0
      else if n = 0 then Fin 0 0
      else (let q = max (floor_log2 n d - 52) (- 1074);
                num = n * 2 ^ nat (- q);
                den = d * 2 ^ nat q;
                f = num div den;
                r = num mod den;
                s = (if 2 * r < den \<or> (2 * r = den \<and> even f) then f else f + 1)
            in if 1024 < int (bitlen s) + q then PosInf
               else if 0 \<le> q then Fin (s * 2 ^ nat q) 0
               else normalise (s * 5 ^ nat (- q)) (nat (- q))))"
proof (cases "d = 1 \<and> 0 \<le> n \<and> n < 9007199254740992")
  case True
  then have "round_binary64 n d = Fin n 0" using round_exact [of n] by simp
  with True show ?thesis by simp
next
  case False
  then show ?thesis unfolding round_binary64_def by (simp only: if_False)
qed

lemma Number_toString_code [code]:
  "Number_toString x =
     (case x of
        NaN \<Rightarrow> ''NaN''
      | PosInf \<Rightarrow> ''Infinity''
      | NegInf \<Rightarrow> ''-Infinity''
      | Fin m k \<Rightarrow>
          if k = 0 \<and> \<bar>m\<bar> < 4503599627370496 then show_int m
          else if m = 0 then ''0''
          else (case shortest_digits \<bar>m\<bar> k of
                  (s, len, n) \<Rightarrow> (if m < 0 then ''-'' else []) @ format_digits s len n))"
proof (cases x)
  case (Fin m k)
  show ?thesis
  proof (cases "k = 0 \<and> \<bar>m\<bar> < 4503599627370496")
    case True
    then have "Number_toString (Fin m 0) = show_int m" using Number_toString_int [of m] by simp
    with True Fin show ?thesis by simp
  next
    case False
    with Fin show ?thesis unfolding Number_toString_def by (simp only: jsnum.case if_False)
  qed
qed (simp_all add: Number_toString_def)

section \<open>Properties of the CSV header line\<close>

lemma parseCsvLine_loop_no_comma:
  "CHR '','' \<notin> set cs \<Longrightarrow>
   parseCsvLine_loop cs result current q = result @ [trim (current @ filter (\<lambda>c. c \<noteq> dquote) cs)]"
  by (induction cs result current q rule: parseCsvLine_loop.induct) auto

text \<open>
  C9 (as the code has it). The header names are the tokens of \<open>parseCsvLine\<close> with every
  double and single quote deleted, wherever it stands in the token: no quote character
  survives in a field name, at the ends or in the interior. For a header line without a
  comma the one field name is the line with its double quotes dropped, trimmed, and then
  with its single quotes dropped; nothing is trimmed again once the quotes are gone.
\<close>

theorem csv_headers_remove_every_quote:
  "length (csv_headers line0) = length (parseCsvLine line0) \<and>
   (\<forall>i < length (parseCsvLine line0).
      csv_headers line0 ! i = filter (\<lambda>c. c \<noteq> dquote \<and> c \<noteq> squote) (parseCsvLine line0 ! i) \<and>
      dquote \<notin> set (csv_headers line0 ! i) \<and> squote \<notin> set (csv_headers line0 ! i)) \<and>
   (CHR '','' \<notin> set line0 \<longrightarrow>
      csv_headers line0 = [filter (\<lambda>c. c \<noteq> squote) (trim (filter (\<lambda>c. c \<noteq> dquote) line0))])"
proof -
  have single: "csv_headers line0 = [filter (\<lambda>c. c \<noteq> squote) (trim (filter (\<lambda>c. c \<noteq> dquote) line0))]"
    if "CHR '','' \<notin> set line0"
  proof -
    have "dquote \<notin> set (trim (filter (\<lambda>c. c \<noteq> dquote) line0))"
      by (auto simp: trim_def dest!: set_dropWhileD)
    then have "filter (\<lambda>c. c \<noteq> dquote \<and> c \<noteq> squote) (trim (filter (\<lambda>c. c \<noteq> dquote) line0))
        = filter (\<lambda>c. c \<noteq> squote) (trim (filter (\<lambda>c. c \<noteq> dquote) line0))"
      by (intro filter_cong) auto
    with that show ?thesis
      by (simp add: csv_headers_def parseCsvLine_def parseCsvLine_loop_no_comma remove_quotes_def)
  qed
  show ?thesis
    using single by (simp add: csv_headers_def remove_quotes_def)
qed

theorem csv_headers_remove_every_quote_witness:
  "(0::nat) < length (parseCsvLine ''o'k,x'') \<and> csv_headers ''o'k,x'' ! 0 = ''ok'' \<and>
   CHR '','' \<notin> set '' 'a' '' \<and> csv_headers '' 'a' '' = [''a'']"
  using csv_headers_remove_every_quote [of "''o'k,x''"] csv_headers_remove_every_quote [of "'' 'a' ''"]
  by (simp add: parseCsvLine_def trim_def is_ws_def)

text \<open>
  C9 as stated fails: the header line \<open>o'k,x\<close> gives the field names \<open>ok\<close> and \<open>x\<close>; the
  quote in the interior of the first token is not preserved.
\<close>

theorem csv_header_interior_quote_counterexample:
  "csv_headers ''o'k,x'' = [''ok'', ''x''] \<and> csv_headers ''o'k,x'' \<noteq> [''o'k'', ''x'']"
  by (simp add: csv_headers_def parseCsvLine_def remove_quotes_def trim_def is_ws_def)


section \<open>Properties of value coercion\<close>

text \<open>
  Numerals that are not binary64 values: the parse is the nearest one, or Infinity.
\<close>

lemma Number_js_rounds:
  "Number_js ''9007199254740993'' = Fin 9007199254740992 0 \<and>
   Number_js ''0.5'' = Fin 5 1 \<and>
   Number_js ''0.1'' = Fin 1000000000000000055511151231257827021181583404541015625 55 \<and>
   Number_js ''1e309'' = PosInf"
  by code_simp




section \<open>Properties of loading\<close>

text \<open>
  C3 (as the code has it). A blank manual input only reports its message. Any other
  load that fails, in the parser or in the validation of its result, reports the errors,
  sets the loaded RowSet to \<open>null\<close> and leaves the generated tabs and the active tab as
  they were. A load that succeeds stores the new RowSet and clears the tabs.
\<close>

theorem load_replaces_or_clears:
  "(trim manualData = [] \<longrightarrow>
      processManualData parsed manualData s = s\<lparr>errors := [''Please enter some data'']\<rparr>) \<and>
   (trim manualData \<noteq> [] \<longrightarrow>
      (case parseDataText parsed manualData of
         Inl e \<Rightarrow>
           errors (processManualData parsed manualData s) = [''Invalid data format: '' @ error_message e] \<and>
           jsonData (processManualData parsed manualData s) = None \<and>
           sqlTabs (processManualData parsed manualData s) = sqlTabs s \<and>
           activeTab (processManualData parsed manualData s) = activeTab s
       | Inr d \<Rightarrow>
           if validateJson d \<noteq> []
           then errors (processManualData parsed manualData s) = validateJson d \<and>
                jsonData (processManualData parsed manualData s) = None \<and>
                sqlTabs (processManualData parsed manualData s) = sqlTabs s \<and>
                activeTab (processManualData parsed manualData s) = activeTab s
           else errors (processManualData parsed manualData s) = [] \<and>
                jsonData (processManualData parsed manualData s) = Some d \<and>
                sqlTabs (processManualData parsed manualData s) = [] \<and>
                activeTab (processManualData parsed manualData s) = 0)) \<and>
   (case onDrop_parse name parsed' text of
      Inl e \<Rightarrow>
        errors (onDrop name parsed' text s) = [''Invalid file format: '' @ error_message e] \<and>
        jsonData (onDrop name parsed' text s) = None \<and>
        sqlTabs (onDrop name parsed' text s) = sqlTabs s \<and>
        activeTab (onDrop name parsed' text s) = activeTab s
    | Inr d \<Rightarrow>
        if validateJson d \<noteq> []
        then errors (onDrop name parsed' text s) = validateJson d \<and>
             jsonData (onDrop name parsed' text s) = None \<and>
             sqlTabs (onDrop name parsed' text s) = sqlTabs s \<and>
             activeTab (onDrop name parsed' text s) = activeTab s
        else errors (onDrop name parsed' text s) = [] \<and>
             jsonData (onDrop name parsed' text s) = Some d \<and>
             sqlTabs (onDrop name parsed' text s) = [] \<and>
             activeTab (onDrop name parsed' text s) = 0)"
  by (simp add: processManualData_def onDrop_def Let_def split: sum.split)

theorem load_replaces_or_clears_witness:
  "trim ''x'' \<noteq> [] \<and> trim ''  '' = [] \<and>
   jsonData (processManualData (Inl ''Unexpected token x'') ''x'' loaded_state) = None \<and>
   sqlTabs (processManualData (Inl ''Unexpected token x'') ''x'' loaded_state) = sqlTabs loaded_state \<and>
   processManualData (Inl []) ''  '' loaded_state = loaded_state\<lparr>errors := [''Please enter some data'']\<rparr>"
proof -
  have h1: "trim ''x'' \<noteq> []" and h2: "trim ''  '' = []"
    and h3: "parseDataText (Inl ''Unexpected token x'') ''x''
               = Inl (Error ''CSV must have at least a header row and one data row'')"
    by code_simp+
  from load_replaces_or_clears [of "''x''" "Inl ''Unexpected token x''" loaded_state] h1 h3
  have c1: "jsonData (processManualData (Inl ''Unexpected token x'') ''x'' loaded_state) = None \<and>
            sqlTabs (processManualData (Inl ''Unexpected token x'') ''x'' loaded_state) = sqlTabs loaded_state"
    by simp
  from load_replaces_or_clears [of "''  ''" "Inl []" loaded_state] h2
  have c2: "processManualData (Inl []) ''  '' loaded_state = loaded_state\<lparr>errors := [''Please enter some data'']\<rparr>"
    by simp
  from h1 h2 c1 c2 show ?thesis by blast
qed

text \<open>
  C3 as stated fails: with a RowSet loaded, a text that does not parse, or a file whose
  content fails validation, leaves no RowSet behind.
\<close>

theorem load_error_clears_rows_counterexample:
  "jsonData loaded_state = Some (Arr [Obj [(''id'', Scalar (Num (Fin 1 0)))]]) \<and>
   jsonData (processManualData (Inl ''Unexpected token x'') ''x'' loaded_state) = None \<and>
   jsonData (onDrop ''rows.csv'' (Inl ''Unexpected token x'') ''x'' loaded_state) = None \<and>
   jsonData (onDrop ''rows.json'' (Inr (Arr [])) ''[]'' loaded_state) = None"
  by code_simp

text \<open>
  C4 (as the code has it). For a file that is parsed as JSON and gives an object, the
  array is unwrapped exactly when it is the value of the field \<open>collectPoints\<close>. With no
  array under that name the object itself goes to validation, which rejects it and
  leaves no RowSet, whatever arrays its other fields hold.
\<close>

theorem unwrap_only_collectPoints:
  "\<not> endsWith (toLowerCase name) ''.csv'' \<and> \<not> endsWith (toLowerCase name) ''.tsv'' \<and>
   \<not> endsWith (toLowerCase name) ''.txt'' \<longrightarrow>
   (\<forall>points. map_of members ''collectPoints'' = Some (Arr points) \<longrightarrow>
      onDrop_parse name (Inr (Obj members)) text = Inr (Arr points)) \<and>
   ((\<forall>points. map_of members ''collectPoints'' \<noteq> Some (Arr points)) \<longrightarrow>
      onDrop_parse name (Inr (Obj members)) text = Inr (Obj members) \<and>
      validateJson (Obj members) = [''JSON must be an array of objects''] \<and>
      jsonData (onDrop name (Inr (Obj members)) text s) = None)"
  by (auto simp: onDrop_parse_def onDrop_def validateJson_def Let_def split: option.splits json.splits)

theorem unwrap_only_collectPoints_witness:
  "\<not> endsWith (toLowerCase ''data.json'') ''.csv'' \<and> \<not> endsWith (toLowerCase ''data.json'') ''.tsv'' \<and>
   \<not> endsWith (toLowerCase ''data.json'') ''.txt'' \<and>
   map_of [(''collectPoints'', Arr [Obj [(''id'', Scalar (Num (Fin 1 0)))]])] ''collectPoints''
     = Some (Arr [Obj [(''id'', Scalar (Num (Fin 1 0)))]]) \<and>
   onDrop_parse ''data.json'' (Inr (Obj [(''collectPoints'', Arr [Obj [(''id'', Scalar (Num (Fin 1 0)))]])])) []
     = Inr (Arr [Obj [(''id'', Scalar (Num (Fin 1 0)))]])"
proof -
  have h1: "\<not> endsWith (toLowerCase ''data.json'') ''.csv'' \<and> \<not> endsWith (toLowerCase ''data.json'') ''.tsv'' \<and>
            \<not> endsWith (toLowerCase ''data.json'') ''.txt''"
    by code_simp
  have h2: "map_of [(''collectPoints'', Arr [Obj [(''id'', Scalar (Num (Fin 1 0)))]])] ''collectPoints''
     = Some (Arr [Obj [(''id'', Scalar (Num (Fin 1 0)))]])"
    by simp
  from unwrap_only_collectPoints [of "''data.json''"
         "[(''collectPoints'', Arr [Obj [(''id'', Scalar (Num (Fin 1 0)))]])]" "[]" loaded_state] h1 h2
  have "onDrop_parse ''data.json'' (Inr (Obj [(''collectPoints'', Arr [Obj [(''id'', Scalar (Num (Fin 1 0)))]])])) []
     = Inr (Arr [Obj [(''id'', Scalar (Num (Fin 1 0)))]])"
    by blast
  with h1 h2 show ?thesis by blast
qed

text \<open>
  C4 as stated fails: an object whose array is in the field \<open>items\<close> is not unwrapped.
\<close>

theorem unwrap_other_field_counterexample:
  "map_of [(''items'', Arr [Obj [(''id'', Scalar (Num (Fin 1 0)))]])] ''items''
     = Some (Arr [Obj [(''id'', Scalar (Num (Fin 1 0)))]]) \<and>
   onDrop_parse ''data.json'' (Inr (Obj [(''items'', Arr [Obj [(''id'', Scalar (Num (Fin 1 0)))]])]))
       ''{\"items\":[{\"id\":1}]}''
     = Inr (Obj [(''items'', Arr [Obj [(''id'', Scalar (Num (Fin 1 0)))]])]) \<and>
   errors (onDrop ''data.json'' (Inr (Obj [(''items'', Arr [Obj [(''id'', Scalar (Num (Fin 1 0)))]])]))
       ''{\"items\":[{\"id\":1}]}'' loaded_state) = [''JSON must be an array of objects''] \<and>
   jsonData (onDrop ''data.json'' (Inr (Obj [(''items'', Arr [Obj [(''id'', Scalar (Num (Fin 1 0)))]])]))
       ''{\"items\":[{\"id\":1}]}'' loaded_state) = None"
  by code_simp

section \<open>Properties of aggregate mode\<close>

lemma trim_Nil_iff: "trim s = [] \<longleftrightarrow> (\<forall>c \<in> set s. is_ws c)"
proof -
  have "dropWhile is_ws (rev (dropWhile is_ws s)) = [] \<longleftrightarrow> dropWhile is_ws s = []"
  proof (cases "dropWhile is_ws s")
    case Nil
    then show ?thesis by (auto dest: set_dropWhileD)
  next
    case (Cons a t)
    then have "\<not> is_ws a" using hd_dropWhile [of is_ws s] by auto
    with Cons show ?thesis by (auto simp: dropWhile_eq_Nil_conv)
  qed
  then show ?thesis by (simp add: trim_def dropWhile_eq_Nil_conv)
qed

lemma match_aggregate_at_lbrace: "match_aggregate_at s = Some n \<Longrightarrow> lbrace \<in> set s"
  by (auto simp: match_aggregate_at_def Let_def split: list.splits if_splits)

lemma match_all_aggregate_lbrace:
  "match_all match_aggregate_at s \<noteq> [] \<Longrightarrow> lbrace \<in> set s"
proof (induction match_aggregate_at s rule: match_all.induct)
  case (1 s)
  show ?case
  proof (cases "s = []")
    case True
    with 1(4) show ?thesis by (simp add: match_all.simps)
  next
    case False
    show ?thesis
    proof (cases "match_aggregate_at s")
      case None
      with False 1(4) have "match_all match_aggregate_at (tl s) \<noteq> []"
        by (subst (asm) match_all.simps) simp
      with 1(1) [OF False None] have "lbrace \<in> set (tl s)" .
      with False show ?thesis by (auto dest: list.set_sel(2))
    next
      case (Some n)
      then show ?thesis by (rule match_aggregate_at_lbrace)
    qed
  qed
qed

lemma aggregate_template_valid:
  assumes "match_all match_aggregate_at tmpl \<noteq> []"
  shows "validateSqlTemplate tmpl = []"
proof -
  have "lbrace \<in> set tmpl" using assms by (rule match_all_aggregate_lbrace)
  moreover have "\<not> is_ws lbrace" by (simp add: is_ws_def)
  ultimately have "trim tmpl \<noteq> []" unfolding trim_Nil_iff by blast
  with assms show ?thesis by (simp add: validateSqlTemplate_def)
qed

lemma generateSqlScript_aggregate:
  assumes "match_all match_aggregate_at tmpl \<noteq> []"
  shows "generateSqlScript other (Some rows) tmpl bs
           = Some (Inr (aggregate_tabs rows tmpl (match_all match_aggregate_at tmpl)))"
  using assms by (simp add: generateSqlScript_def aggregate_template_valid Let_def)

lemma same_computation:
  "withoutNullTemplate rows ms tmpl = processedTemplate_all rows ms tmpl"
  by (simp add: withoutNullTemplate_def processedTemplate_all_def)

lemma id_rows_eval:
  "generateSqlScript other (Some id_rows) ''WHERE id IN ({{id}})'' 1000 = Some (Inr id_rows_tabs)"
  by code_simp

lemma id_rows_matches:
  "match_all match_aggregate_at ''WHERE id IN ({{id}})'' = [''{{id}}'']"
  by code_simp

text \<open>
  C10. In aggregate mode, whenever the result holds both the tab ALL and the tab without
  NULL values, their scripts are the same string: both are built from the template by
  the same substitutions of the same value lists. The two tabs differ in what they
  report beside the script, the row count among it.
\<close>

theorem aggregate_scripts_identical:
  assumes "match_all match_aggregate_at tmpl \<noteq> []"
    and "generateSqlScript other (Some rows) tmpl bs = Some (Inr tabs)"
    and "t1 \<in> set tabs" and "tab_type t1 = All"
    and "t2 \<in> set tabs" and "tab_type t2 = WithoutNull"
  shows "script t1 = script t2"
proof -
  from assms(1,2) have "tabs = aggregate_tabs rows tmpl (match_all match_aggregate_at tmpl)"
    by (simp add: generateSqlScript_aggregate)
  with assms(3-6) show ?thesis
    by (auto simp: aggregate_tabs_def Let_def same_computation split: if_splits)
qed

theorem aggregate_scripts_identical_witness:
  "match_all match_aggregate_at ''WHERE id IN ({{id}})'' \<noteq> [] \<and>
   generateSqlScript rejecting (Some id_rows) ''WHERE id IN ({{id}})'' 1000 = Some (Inr id_rows_tabs) \<and>
   id_rows_tabs ! 0 \<in> set id_rows_tabs \<and> tab_type (id_rows_tabs ! 0) = All \<and>
   id_rows_tabs ! 1 \<in> set id_rows_tabs \<and> tab_type (id_rows_tabs ! 1) = WithoutNull \<and>
   script (id_rows_tabs ! 0) = script (id_rows_tabs ! 1)"
proof -
  have h1: "match_all match_aggregate_at ''WHERE id IN ({{id}})'' \<noteq> []"
    by (simp add: id_rows_matches)
  have h3: "id_rows_tabs ! 0 \<in> set id_rows_tabs" and h4: "tab_type (id_rows_tabs ! 0) = All"
    and h5: "id_rows_tabs ! 1 \<in> set id_rows_tabs" and h6: "tab_type (id_rows_tabs ! 1) = WithoutNull"
    by (simp_all add: id_rows_tabs_def)
  from aggregate_scripts_identical [OF h1 id_rows_eval [of rejecting] h3 h4 h5 h6]
  have "script (id_rows_tabs ! 0) = script (id_rows_tabs ! 1)" .
  with h1 id_rows_eval [of rejecting] h3 h4 h5 h6 show ?thesis by blast
qed

text \<open>
  C2 (as the code has it). In aggregate mode the expansion succeeds, and the tab without
  NULL values is produced exactly when some aggregate key has a value that is neither
  \<open>null\<close> nor \<open>undefined\<close> in some row. When it is produced, its row count is the number
  of rows in which all the aggregate keys have such a value.
\<close>

theorem without_null_iff_some_key:
  assumes "match_all match_aggregate_at tmpl \<noteq> []"
  shows "\<exists>tabs. generateSqlScript other (Some rows) tmpl bs = Some (Inr tabs) \<and>
     ((\<exists>t \<in> set tabs. tab_type t = WithoutNull) \<longleftrightarrow>
        (\<exists>p \<in> set (match_all match_aggregate_at tmpl). \<exists>row \<in> set rows.
            is_present (map_of row (strip_double_braces p)))) \<and>
     (\<forall>t \<in> set tabs. tab_type t = WithoutNull \<longrightarrow>
        rowCount t = length (filter (\<lambda>row. \<forall>p \<in> set (match_all match_aggregate_at tmpl).
                                       is_present (map_of row (strip_double_braces p))) rows))"
  using assms
  by (auto simp: generateSqlScript_aggregate aggregate_tabs_def Let_def hasNonNullValues_def
        rows_without_null_def list_ex_iff list_all_iff)

theorem without_null_iff_some_key_witness:
  "match_all match_aggregate_at ''WHERE id IN ({{id}})'' \<noteq> [] \<and>
   generateSqlScript rejecting (Some id_rows) ''WHERE id IN ({{id}})'' 1000 = Some (Inr id_rows_tabs) \<and>
   id_rows_tabs ! 1 \<in> set id_rows_tabs \<and> tab_type (id_rows_tabs ! 1) = WithoutNull \<and>
   rowCount (id_rows_tabs ! 1) = 3"
proof -
  have h1: "match_all match_aggregate_at ''WHERE id IN ({{id}})'' \<noteq> []"
    by (simp add: id_rows_matches)
  have h5: "id_rows_tabs ! 1 \<in> set id_rows_tabs" and h6: "tab_type (id_rows_tabs ! 1) = WithoutNull"
    by (simp_all add: id_rows_tabs_def)
  have n: "length (filter (\<lambda>row. \<forall>p \<in> set (match_all match_aggregate_at ''WHERE id IN ({{id}})'').
                              is_present (map_of row (strip_double_braces p))) id_rows) = 3"
    by code_simp
  from without_null_iff_some_key [OF h1, of rejecting id_rows 1000] id_rows_eval [of rejecting]
  have "\<forall>t \<in> set id_rows_tabs. tab_type t = WithoutNull \<longrightarrow>
        rowCount t = length (filter (\<lambda>row. \<forall>p \<in> set (match_all match_aggregate_at ''WHERE id IN ({{id}})'').
                                       is_present (map_of row (strip_double_braces p))) id_rows)"
    by auto
  with h5 h6 n have "rowCount (id_rows_tabs ! 1) = 3" by auto
  with h1 id_rows_eval [of rejecting] h5 h6 show ?thesis by blast
qed

text \<open>
  C2 as stated fails: of the keys \<open>a\<close> and \<open>b\<close> of the template, \<open>b\<close> has no value but
  \<open>null\<close> in the data, and the tab without NULL values is produced all the same.
\<close>

theorem without_null_with_an_all_null_key_counterexample:
  "match_all match_aggregate_at ''{{a}} {{b}}'' = [''{{a}}'', ''{{b}}''] \<and>
   strip_double_braces ''{{b}}'' = ''b'' \<and>
   map_of [(''a'', Num (Fin 1 0)), (''b'', Null)] ''b'' = Some Null \<and>
   is_present (Some Null) = False \<and>
   generateSqlScript rejecting (Some [[(''a'', Num (Fin 1 0)), (''b'', Null)]]) ''{{a}} {{b}}'' 1000 =
     Some (Inr
       [\<lparr>tab_id = ''all'', tab_name = ''ALL'', script = ''1 '', rowCount = 1, tab_type = All\<rparr>,
        \<lparr>tab_id = ''without-null'', tab_name = ''Without NULL values'', script = ''1 '',
         rowCount = 0, tab_type = WithoutNull\<rparr>])"
  by code_simp

section \<open>Properties of the batch loop\<close>

lemma map_error_Inr_length: "map_error f xs = Inr ys \<Longrightarrow> length ys = length xs"
  by (induction xs arbitrary: ys) (auto split: sum.splits)

lemma map_error_Inr_all: "map_error f xs = Inr ys \<Longrightarrow> x \<in> set xs \<Longrightarrow> \<exists>y. f x = Inr y"
  by (induction xs arbitrary: ys) (auto split: sum.splits)

lemma map_error_all_Inr: "(\<And>x. x \<in> set xs \<Longrightarrow> \<exists>y. f x = Inr y) \<Longrightarrow> \<exists>ys. map_error f xs = Inr ys"
proof (induction xs)
  case Nil
  then show ?case by simp
next
  case (Cons a xs)
  then obtain y where "f a = Inr y" by auto
  moreover from Cons obtain ys where "map_error f xs = Inr ys" by auto
  ultimately show ?case by simp
qed

lemma value_rows_subset:
  assumes "value_rows other rt rows = Inr allRows" and "set chunk \<subseteq> set rows"
  shows "\<exists>t. value_rows other rt chunk = Inr t"
proof -
  from assms(1) obtain ys where ys: "map_error (value_row other rt) rows = Inr ys"
    by (cases "map_error (value_row other rt) rows") (simp_all add: value_rows_def)
  have "\<exists>y. value_row other rt x = Inr y" if "x \<in> set chunk" for x
  proof -
    from that assms(2) have "x \<in> set rows" by (rule subsetD [rotated])
    with ys show ?thesis by (rule map_error_Inr_all)
  qed
  then have "\<exists>zs. map_error (value_row other rt) chunk = Inr zs"
    by (rule map_error_all_Inr)
  then obtain zs where "map_error (value_row other rt) chunk = Inr zs" ..
  then show ?thesis by (simp add: value_rows_def)
qed

lemma set_slice: "set (slice xs a b) \<subseteq> set xs"
  by (auto simp: slice_def Let_def dest: in_set_takeD in_set_dropD)

lemma slice_chunk:
  "0 \<le> i \<Longrightarrow> 0 < bs \<Longrightarrow> slice xs i (i + bs) = take (nat bs) (drop (nat i) xs)"
  by (auto simp: slice_def Let_def min_def nat_diff_distrib nat_add_distrib)

lemma join_nonempty: "xs \<noteq> [] \<Longrightarrow> \<forall>x \<in> set xs. x \<noteq> [] \<Longrightarrow> join sep xs \<noteq> []"
  by (induction sep xs rule: join.induct) auto

lemma value_row_nonempty: "value_row other rt row = Inr s \<Longrightarrow> s \<noteq> []"
  by (auto simp: value_row_def split: sum.splits)

lemma map_error_Inr_set: "map_error f xs = Inr ys \<Longrightarrow> y \<in> set ys \<Longrightarrow> \<exists>x \<in> set xs. f x = Inr y"
  by (induction xs arbitrary: ys) (auto split: sum.splits)

lemma value_rows_nonempty:
  assumes "value_rows other rt chunk = Inr t" and "chunk \<noteq> []"
  shows "t \<noteq> []"
proof -
  from assms(1) obtain ys where ys: "map_error (value_row other rt) chunk = Inr ys"
    and t: "t = join [CHR '','', newline] ys"
    by (auto simp: value_rows_def split: sum.splits)
  from map_error_Inr_length [OF ys] assms(2) have "ys \<noteq> []" by auto
  moreover have "\<forall>y \<in> set ys. y \<noteq> []"
  proof
    fix y assume "y \<in> set ys"
    with ys obtain x where "value_row other rt x = Inr y" by (blast dest: map_error_Inr_set)
    then show "y \<noteq> []" by (rule value_row_nonempty)
  qed
  ultimately show ?thesis unfolding t by (rule join_nonempty)
qed

text \<open>Termination of the loop for a positive batch size.\<close>

lemma batch_loop_terminates:
  assumes "1 \<le> bs"
  shows "\<exists>r. batch_loop other rows rt ins bs i tabs = Some r"
proof (induction "nat (int (length rows) - i)" arbitrary: i tabs rule: less_induct)
  case less
  show ?case
  proof (cases "i < int (length rows)")
    case False
    then show ?thesis by (subst batch_loop.simps) simp
  next
    case True
    show ?thesis
    proof (cases "value_rows other rt (slice rows i (i + bs))")
      case (Inl e)
      with True show ?thesis by (subst batch_loop.simps) (simp add: Let_def)
    next
      case (Inr t)
      have "nat (int (length rows) - (i + bs)) < nat (int (length rows) - i)"
        using True assms by linarith
      from less [OF this] obtain r where
        "batch_loop other rows rt ins bs (i + bs)
           (if t \<noteq> [] then tabs @ [batch_tab ins t (batchNumber i bs) (length (slice rows i (i + bs)))]
            else tabs) = Some r"
        by blast
      with True Inr show ?thesis by (subst batch_loop.simps) (simp add: Let_def)
    qed
  qed
qed

text \<open>With a batch size that is not positive the loop, once entered, never returns.\<close>

lemma batch_loop_diverges:
  assumes "bs \<le> 0" and "i < int (length rows)" and "value_rows other rt rows = Inr allRows"
  shows "batch_loop other rows rt ins bs i tabs = None"
proof (rule ccontr)
  assume "batch_loop other rows rt ins bs i tabs \<noteq> None"
  then obtain y where y: "batch_loop other rows rt ins bs i tabs = Some y" by auto
  have "0 < bs \<or> int (length rows) \<le> i \<or> (\<forall>a. value_rows other rt rows \<noteq> Inr a)"
  proof (rule batch_loop.raw_induct
      [where P = "\<lambda>other rows rt ins bs i tabs y.
                    0 < bs \<or> int (length rows) \<le> i \<or> (\<forall>a. value_rows other rt rows \<noteq> Inr a)",
       OF _ y])
    fix loop :: "regexp_replace \<Rightarrow> row list \<Rightarrow> string \<Rightarrow> string \<Rightarrow> int \<Rightarrow> int \<Rightarrow> SqlTab list
                    \<Rightarrow> (error + SqlTab list) option"
    fix other rows rt ins bs i tabs y
    assume IH: "\<And>other rows rt ins bs i tabs y. loop other rows rt ins bs i tabs = Some y \<Longrightarrow>
                  0 < bs \<or> int (length rows) \<le> i \<or> (\<forall>a. value_rows other rt rows \<noteq> Inr a)"
    assume step: "(if i < int (length rows)
         then let batchData = slice rows i (i + bs)
              in case value_rows other rt batchData of
                   Inl e \<Rightarrow> Some (Inl e)
                 | Inr batchValueRows \<Rightarrow>
                     loop other rows rt ins bs (i + bs)
                       (if batchValueRows \<noteq> []
                        then tabs @ [batch_tab ins batchValueRows (batchNumber i bs) (length batchData)]
                        else tabs)
         else Some (Inr tabs)) = Some y"
    show "0 < bs \<or> int (length rows) \<le> i \<or> (\<forall>a. value_rows other rt rows \<noteq> Inr a)"
    proof (rule ccontr)
      assume "\<not> (0 < bs \<or> int (length rows) \<le> i \<or> (\<forall>a. value_rows other rt rows \<noteq> Inr a))"
      then have a: "bs \<le> 0" "i < int (length rows)" and "\<exists>a. value_rows other rt rows = Inr a"
        by auto
      then obtain a0 where a0: "value_rows other rt rows = Inr a0" by blast
      from value_rows_subset [OF this set_slice]
      obtain t where t: "value_rows other rt (slice rows i (i + bs)) = Inr t" by blast
      with a step have
        "loop other rows rt ins bs (i + bs)
           (if t \<noteq> [] then tabs @ [batch_tab ins t (batchNumber i bs) (length (slice rows i (i + bs)))]
            else tabs) = Some y"
        by (simp add: Let_def)
      from IH [OF this] a a0 show False by auto
    qed
  qed
  with assms show False by auto
qed

subsection \<open>Chunks\<close>

lemma chunks_Nil [simp]: "chunks n [] = []"
  by (simp add: chunks.simps)

lemma chunks_step: "0 < n \<Longrightarrow> xs \<noteq> [] \<Longrightarrow> chunks n xs = take n xs # chunks n (drop n xs)"
  by (subst chunks.simps) simp




subsection \<open>What the batch loop returns\<close>

lemma batch_loop_result:
  assumes "1 \<le> bs" and "0 \<le> i"
    and "batch_loop other rows rt ins bs i acc = Some (Inr tabs)"
  shows "\<exists>ts. tabs = acc @ ts \<and> length ts = length (chunks (nat bs) (drop (nat i) rows)) \<and>
     (\<forall>j < length ts. \<exists>t. value_rows other rt (chunks (nat bs) (drop (nat i) rows) ! j) = Inr t \<and>
        ts ! j = batch_tab ins t (Fin (i div bs + 1 + int j) 0)
                   (length (chunks (nat bs) (drop (nat i) rows) ! j)))"
  using assms(2,3)
proof (induction "nat (int (length rows) - i)" arbitrary: i acc rule: less_induct)
  case less
  show ?case
  proof (cases "i < int (length rows)")
    case False
    with less.prems have "tabs = acc" by (subst (asm) batch_loop.simps) simp
    moreover from False less.prems(1) have "drop (nat i) rows = []" by simp
    ultimately show ?thesis by simp
  next
    case True
    let ?c = "take (nat bs) (drop (nat i) rows)"
    have sl: "slice rows i (i + bs) = ?c"
      using less.prems(1) assms(1) by (simp add: slice_chunk)
    from True less.prems(1) have ne: "drop (nat i) rows \<noteq> []" by simp
    with assms(1) have cne: "?c \<noteq> []" by simp
    from less.prems(2) True sl obtain t where t: "value_rows other rt ?c = Inr t"
      by (subst (asm) batch_loop.simps) (auto simp: Let_def split: sum.splits)
    from t cne have tne: "t \<noteq> []" by (rule value_rows_nonempty)
    let ?tab = "batch_tab ins t (Fin (i div bs + 1) 0) (length ?c)"
    have bn: "batchNumber i bs = Fin (i div bs + 1) 0"
      using assms(1) by (simp add: batchNumber_def)
    from less.prems(2) True sl t tne bn
    have rec: "batch_loop other rows rt ins bs (i + bs) (acc @ [?tab]) = Some (Inr tabs)"
      by (subst (asm) batch_loop.simps) (simp add: Let_def)
    have m: "nat (int (length rows) - (i + bs)) < nat (int (length rows) - i)"
      using True assms(1) by linarith
    have nonneg: "0 \<le> i + bs" using less.prems(1) assms(1) by simp
    let ?cs' = "chunks (nat bs) (drop (nat (i + bs)) rows)"
    from less.hyps [OF m nonneg rec] obtain ts where
      ts: "tabs = (acc @ [?tab]) @ ts" "length ts = length ?cs'"
      and each: "\<forall>j < length ts. \<exists>t. value_rows other rt (?cs' ! j) = Inr t \<and>
          ts ! j = batch_tab ins t (Fin ((i + bs) div bs + 1 + int j) 0) (length (?cs' ! j))"
      by blast
    have dr: "drop (nat (i + bs)) rows = drop (nat bs) (drop (nat i) rows)"
      using less.prems(1) assms(1) by (simp add: nat_add_distrib add.commute)
    have cs: "chunks (nat bs) (drop (nat i) rows) = ?c # ?cs'"
      using ne assms(1) by (simp add: chunks_step dr)
    have "bs \<noteq> 0" using assms(1) by simp
    then have dv: "(i + bs) div bs = i div bs + 1" by (rule div_add_self2)
    have "\<exists>t'. value_rows other rt ((?c # ?cs') ! j) = Inr t' \<and>
            (?tab # ts) ! j = batch_tab ins t' (Fin (i div bs + 1 + int j) 0) (length ((?c # ?cs') ! j))"
      if "j < length (?tab # ts)" for j
    proof (cases j)
      case 0
      with t show ?thesis by simp
    next
      case (Suc j')
      with that have "j' < length ts" by simp
      with each obtain t' where "value_rows other rt (?cs' ! j') = Inr t'"
        "ts ! j' = batch_tab ins t' (Fin ((i + bs) div bs + 1 + int j') 0) (length (?cs' ! j'))"
        by blast
      moreover have "(i + bs) div bs + 1 + int j' = i div bs + 1 + int (Suc j')"
        using dv by simp
      ultimately show ?thesis using Suc by simp
    qed
    with ts cs show ?thesis
      by (intro exI [of _ "?tab # ts"]) simp
  qed
qed

lemma length_chunks: "length (chunks n xs) \<le> length xs"
proof (induction n xs rule: chunks.induct)
  case (1 n xs)
  show ?case
  proof (cases "n = 0 \<or> xs = []")
    case True
    then show ?thesis by (auto simp: chunks.simps)
  next
    case False
    then have "0 < n" "1 \<le> length xs" by (cases xs; simp)+
    moreover from 1 [OF False] have "length (chunks n (drop n xs)) \<le> length xs - n" by simp
    moreover from False have "chunks n xs = take n xs # chunks n (drop n xs)" by (simp add: chunks_step)
    ultimately show ?thesis by simp
  qed
qed


lemma length_initial_tabs: "length (initial_tabs ins a n wo w) \<le> 3"
  by (simp add: initial_tabs_def)

lemma generateSqlTabs_fallback:
  assumes "\<not> includes_str (toLowerCase tmpl) ''values''"
  shows "generateSqlTabs other rows bs tmpl =
           (case statement_rows other tmpl rows of
              Inl e \<Rightarrow> Some (Inl e)
            | Inr singleScript \<Rightarrow>
                Some (Inr [\<lparr>tab_id = ''all'', tab_name = ''ALL'', script = singleScript,
                            rowCount = length rows, tab_type = All\<rparr>]))"
  using assms by (simp add: generateSqlTabs_def)

lemma generateSqlTabs_values_path:
  assumes "includes_str (toLowerCase tmpl) ''values''"
    and "generateSqlTabs other rows bs tmpl = Some (Inr tabs)"
  obtains idx rt a wo w where
    "values_match tmpl = Some (idx, rt)" and "rt \<noteq> []"
    and "value_rows other rt rows = Inr a" and "split_rows other rt rows [] [] = Inr (wo, w)"
    and "bs < int (length rows) \<Longrightarrow>
           batch_loop other rows rt (insertStatement_of tmpl idx) bs 0
             (initial_tabs (insertStatement_of tmpl idx) a (length rows) wo w) = Some (Inr tabs)"
    and "\<not> bs < int (length rows) \<Longrightarrow>
           tabs = initial_tabs (insertStatement_of tmpl idx) a (length rows) wo w"
proof (cases "values_match tmpl")
  case None
  with assms show ?thesis by (simp add: generateSqlTabs_def)
next
  case (Some p)
  obtain idx rt where p: "p = (idx, rt)" by (cases p)
  show ?thesis
  proof (cases "rt = []")
    case True
    with assms Some p show ?thesis by (simp add: generateSqlTabs_def)
  next
    case rt: False
    show ?thesis
    proof (cases "value_rows other rt rows")
      case (Inl e)
      with assms Some p rt show ?thesis by (simp add: generateSqlTabs_def)
    next
      case a: (Inr a)
      show ?thesis
      proof (cases "split_rows other rt rows [] []")
        case (Inl e)
        with assms Some p rt a show ?thesis by (simp add: generateSqlTabs_def)
      next
        case (Inr q)
        obtain wo w where q: "q = (wo, w)" by (cases q)
        from assms Some p rt a Inr q
        have "(if bs < int (length rows)
               then batch_loop other rows rt (insertStatement_of tmpl idx) bs 0
                      (initial_tabs (insertStatement_of tmpl idx) a (length rows) wo w)
               else Some (Inr (initial_tabs (insertStatement_of tmpl idx) a (length rows) wo w)))
              = Some (Inr tabs)"
          by (simp add: generateSqlTabs_def Let_def)
        then have "bs < int (length rows) \<Longrightarrow>
             batch_loop other rows rt (insertStatement_of tmpl idx) bs 0
               (initial_tabs (insertStatement_of tmpl idx) a (length rows) wo w) = Some (Inr tabs)"
          and "\<not> bs < int (length rows) \<Longrightarrow>
             tabs = initial_tabs (insertStatement_of tmpl idx) a (length rows) wo w"
          by (simp_all split: if_splits)
        with Some p rt a Inr q that show ?thesis by blast
      qed
    qed
  qed
qed

lemma generateSqlTabs_terminates:
  assumes "1 \<le> bs"
  shows "\<exists>r. generateSqlTabs other rows bs tmpl = Some r"
proof (cases "includes_str (toLowerCase tmpl) ''values''")
  case False
  then show ?thesis
    by (cases "statement_rows other tmpl rows") (simp_all add: generateSqlTabs_fallback)
next
  case True
  show ?thesis
  proof (cases "values_match tmpl")
    case None
    with True show ?thesis by (simp add: generateSqlTabs_def)
  next
    case (Some p)
    obtain idx rt where p: "p = (idx, rt)" by (cases p)
    show ?thesis
    proof (cases "rt = []")
      case True
      with \<open>includes_str (toLowerCase tmpl) ''values''\<close> Some p show ?thesis
        by (simp add: generateSqlTabs_def)
    next
      case rt: False
      show ?thesis
      proof (cases "value_rows other rt rows")
        case (Inl e)
        with True Some p rt show ?thesis by (simp add: generateSqlTabs_def)
      next
        case a: (Inr a)
        show ?thesis
        proof (cases "split_rows other rt rows [] []")
          case (Inl e)
          with True Some p rt a show ?thesis by (simp add: generateSqlTabs_def)
        next
          case (Inr q)
          obtain wo w where q: "q = (wo, w)" by (cases q)
          from batch_loop_terminates [OF assms] True Some p rt a Inr q show ?thesis
            by (simp add: generateSqlTabs_def Let_def)
        qed
      qed
    qed
  qed
qed

lemma batch_loop_from_zero:
  assumes "1 \<le> bs" and "batch_loop other rows rt ins bs 0 acc = Some (Inr tabs)"
  obtains ts where "tabs = acc @ ts" and "length ts = length (chunks (nat bs) rows)"
    and "\<forall>j < length ts. \<exists>t. value_rows other rt (chunks (nat bs) rows ! j) = Inr t \<and>
           ts ! j = batch_tab ins t (Fin (1 + int j) 0) (length (chunks (nat bs) rows ! j))"
proof -
  have "0 \<le> (0::int)" by simp
  from batch_loop_result [OF assms(1) this assms(2)]
  have "\<exists>ts. tabs = acc @ ts \<and> length ts = length (chunks (nat bs) rows) \<and>
     (\<forall>j < length ts. \<exists>t. value_rows other rt (chunks (nat bs) rows ! j) = Inr t \<and>
        ts ! j = batch_tab ins t (Fin (1 + int j) 0) (length (chunks (nat bs) rows ! j)))"
    by simp
  then show thesis using that by blast
qed

lemma generateSqlTabs_length:
  assumes "1 \<le> bs" and "generateSqlTabs other rows bs tmpl = Some (Inr tabs)"
  shows "length tabs \<le> 3 + length rows"
proof (cases "includes_str (toLowerCase tmpl) ''values''")
  case False
  show ?thesis
  proof (cases "statement_rows other tmpl rows")
    case (Inl e)
    with False assms(2) show ?thesis by (simp add: generateSqlTabs_fallback)
  next
    case (Inr sc)
    with False assms(2) have "length tabs = 1" by (auto simp: generateSqlTabs_fallback)
    then show ?thesis by simp
  qed
next
  case True
  show ?thesis
  proof (rule generateSqlTabs_values_path [OF True assms(2)])
    fix idx rt a wo w
    assume loop: "bs < int (length rows) \<Longrightarrow>
           batch_loop other rows rt (insertStatement_of tmpl idx) bs 0
             (initial_tabs (insertStatement_of tmpl idx) a (length rows) wo w) = Some (Inr tabs)"
      and noloop: "\<not> bs < int (length rows) \<Longrightarrow>
           tabs = initial_tabs (insertStatement_of tmpl idx) a (length rows) wo w"
    have three: "length (initial_tabs (insertStatement_of tmpl idx) a (length rows) wo w) \<le> 3"
      by (rule length_initial_tabs)
    show ?thesis
    proof (cases "bs < int (length rows)")
      case False
      with noloop three show ?thesis by simp
    next
      case True
      show ?thesis
      proof (rule batch_loop_from_zero [OF assms(1) loop [OF True]])
        fix ts
        assume "tabs = initial_tabs (insertStatement_of tmpl idx) a (length rows) wo w @ ts"
          and "length ts = length (chunks (nat bs) rows)"
        with three length_chunks [of "nat bs" rows] show ?thesis by simp
      qed
    qed
  qed
qed

text \<open>
  For a batch size of at least 1, which is the minimum that the batch size input
  declares, the expansion returns for every RowSet and every template, with a result or
  with an error; a result holds at most three tabs and one batch tab for each row.
\<close>

lemma expansion_returns:
  assumes "1 \<le> batchSize"
  shows "\<exists>r. generateSqlScript other rowset tmpl batchSize = Some r \<and>
           (\<forall>rows tabs. rowset = Some rows \<and> r = Inr tabs \<longrightarrow> length tabs \<le> 3 + length rows)"
proof (cases rowset)
  case None
  then show ?thesis by (simp add: generateSqlScript_def)
next
  case (Some rows)
  show ?thesis
  proof (cases "validateSqlTemplate tmpl \<noteq> [] \<or> match_all match_aggregate_at tmpl \<noteq> []")
    case True
    with Some show ?thesis
      by (auto simp: generateSqlScript_def Let_def aggregate_tabs_def)
  next
    case False
    then have eq: "generateSqlScript other rowset tmpl batchSize = generateSqlTabs other rows batchSize tmpl"
      using Some by (simp add: generateSqlScript_def Let_def)
    from generateSqlTabs_terminates [OF assms] obtain r where r: "generateSqlTabs other rows batchSize tmpl = Some r"
      by blast
    with generateSqlTabs_length [OF assms] eq Some show ?thesis by auto
  qed
qed

text \<open>
  C7. The code at a batch size of zero and at a negative one, with three rows and the
  template \<open>VALUES ({id})\<close>: the step \<open>i += batchSize\<close> of the batch loop does not
  advance, the test \<open>i < jsonData.length\<close> stays true, and the expansion never returns,
  where the claim has it terminate. This holds whatever the engine does on the patterns
  that are left to it. Both batch sizes are states that the batch size input sets: zero
  when its text is empty or \<open>0\<close>, a negative one when the text is such a numeral.
\<close>

theorem zero_batch_size_never_returns:
  "generateSqlScript other (Some three_rows) ''VALUES ({id})'' 0 = None \<and>
   generateSqlScript other (Some three_rows) ''VALUES ({id})'' (- 1) = None \<and>
   onChange_batchSize [] = Fin 0 0 \<and> onChange_batchSize ''0'' = Fin 0 0 \<and>
   onChange_batchSize ''-1'' = Fin (- 1) 0"
proof -
  have input: "onChange_batchSize [] = Fin 0 0 \<and> onChange_batchSize ''0'' = Fin 0 0 \<and>
               onChange_batchSize ''-1'' = Fin (- 1) 0"
    by code_simp
  let ?T = "''VALUES ({id})''"
  have v: "validateSqlTemplate ?T = []" and m: "match_all match_aggregate_at ?T = []"
    and inc: "includes_str (toLowerCase ?T) ''values'' = True"
    and vm: "values_match ?T = Some (0, ''{id}'')"
    and vr: "value_rows other ''{id}'' three_rows = Inr (''(1),'' @ [newline] @ ''(2),'' @ [newline] @ ''(3)'')"
    and sr: "split_rows other ''{id}'' three_rows [] [] = Inr ([''(1)'', ''(2)'', ''(3)''], [])"
    and n: "length three_rows = 3"
    by code_simp+
  have "generateSqlScript other (Some three_rows) ?T bs = None" if "bs \<le> 0" for bs
  proof -
    from that have "bs < int (length three_rows)" by (simp add: n)
    moreover have "batch_loop other three_rows ''{id}'' ins bs 0 tabs = None" for ins tabs
      using that vr by (intro batch_loop_diverges [where allRows = "''(1),'' @ [newline] @ ''(2),'' @ [newline] @ ''(3)''"]) (simp_all add: n)
    ultimately show ?thesis
      by (simp add: generateSqlScript_def generateSqlTabs_def v m inc vm vr sr Let_def)
  qed
  from this [of 0] this [of "- 1"] input show ?thesis by simp
qed





section \<open>Placeholders without syntax characters\<close>

text \<open>
  For such placeholders the regular expression that is built is a literal one: the
  substitution never raises, and with a batch size of at least 1 the per-row expansion
  returns its tabs, or the message that no VALUES clause was found.
\<close>

lemma plain_not_syntax:
  assumes "c \<notin> set ''^$.*+?()[]|''" and "c \<noteq> backslash" and "c \<noteq> lbrace" and "c \<noteq> rbrace"
  shows "c \<notin> set syntax_chars"
  using assms by (simp add: syntax_chars_def)

lemma literal_pattern_escape:
  "plain_placeholder p \<Longrightarrow> literal_pattern (escape_braces p) = Some p"
proof (induction p)
  case Nil
  then show ?case by (simp add: escape_braces_def)
next
  case (Cons c cs)
  then have ih: "literal_pattern (escape_braces cs) = Some cs"
    and c: "c \<notin> set ''^$.*+?()[]|''" "c \<noteq> backslash"
    by (simp_all add: plain_placeholder_def)
  show ?case
  proof (cases "c = lbrace \<or> c = rbrace")
    case True
    then have "escape_braces (c # cs) = backslash # c # escape_braces cs"
      by (auto simp: escape_braces_def)
    with True ih show ?thesis by auto
  next
    case False
    then have e: "escape_braces (c # cs) = c # escape_braces cs"
      by (simp add: escape_braces_def)
    from False c have ns: "c \<notin> set syntax_chars" by (intro plain_not_syntax) auto
    show ?thesis
    proof (cases "escape_braces cs")
      case Nil
      with ih have "cs = []" by simp
      with e Nil ns show ?thesis by simp
    next
      case (Cons d t)
      with e ns c ih show ?thesis by simp
    qed
  qed
qed

lemma substitute_plain:
  assumes "plain_placeholder p" and "p \<noteq> []"
  shows "\<exists>r. substitute other processedRow p replacement = Inr r"
  using assms by (simp add: substitute_def RegExp_replace_def literal_pattern_escape)

text \<open>
  A placeholder with a syntax character that makes a valid pattern, such as \<open>{a.b}\<close>, is
  left to the engine: no error is made up for it.
\<close>

lemma substitute_left_to_engine:
  "escape_braces ''{a.b}'' = [backslash] @ ''{a.b'' @ [backslash] @ ''}'' \<and>
   substitute other processedRow ''{a.b}'' replacement
     = other (escape_braces ''{a.b}'') replacement processedRow"
proof -
  have "escape_braces ''{a.b}'' = [backslash] @ ''{a.b'' @ [backslash] @ ''}''"
    and "literal_pattern (escape_braces ''{a.b}'') = None"
    and "\<not> unbalanced_groups (escape_braces ''{a.b}'')"
    by code_simp+
  then show ?thesis by (simp add: substitute_def RegExp_replace_def)
qed

lemma match_all_nonempty: "p \<in> set (match_all m s) \<Longrightarrow> p \<noteq> []"
proof (induction m s rule: match_all.induct)
  case (1 m s)
  show ?case
  proof (cases "s = []")
    case True
    with 1(4) show ?thesis by (simp add: match_all.simps)
  next
    case ne: False
    show ?thesis
    proof (cases "m s")
      case None
      with ne 1(4) have "p \<in> set (match_all m (tl s))" by (subst (asm) match_all.simps) simp
      with 1(1) [OF ne None] show ?thesis .
    next
      case (Some n)
      show ?thesis
      proof (cases "0 < n")
        case True
        with ne Some 1(4) have "p = take n s \<or> p \<in> set (match_all m (drop n s))"
          by (subst (asm) match_all.simps) simp
        with 1(2) [OF ne Some True] True ne show ?thesis by auto
      next
        case False
        with ne Some 1(4) have "p \<in> set (match_all m (tl s))" by (subst (asm) match_all.simps) simp
        with 1(3) [OF ne Some False] show ?thesis .
      qed
    qed
  qed
qed

lemma substitute_all_plain:
  "\<forall>p \<in> set ps. plain_placeholder p \<and> p \<noteq> [] \<Longrightarrow> \<exists>r. substitute_all other row ps processedRow = Inr r"
proof (induction ps arbitrary: processedRow)
  case Nil
  then show ?case by simp
next
  case (Cons p ps)
  then have "plain_placeholder p" "p \<noteq> []" by simp_all
  from substitute_plain [OF this] obtain r where
    "substitute other processedRow p (replacement_all (map_of row (strip_braces p))) = Inr r" by blast
  moreover from Cons obtain r' where "substitute_all other row ps r = Inr r'" by fastforce
  ultimately show ?case by simp
qed

lemma substitute_split_plain:
  "\<forall>p \<in> set ps. plain_placeholder p \<and> p \<noteq> [] \<Longrightarrow>
   \<exists>r h. substitute_split other row ps processedRow hasNull = Inr (r, h)"
proof (induction ps arbitrary: processedRow hasNull)
  case Nil
  then show ?case by simp
next
  case (Cons p ps)
  then have pl: "plain_placeholder p" "p \<noteq> []" by simp_all
  obtain isNull replacement where rs: "replacement_split (map_of row (strip_braces p)) = (isNull, replacement)"
    by (cases "replacement_split (map_of row (strip_braces p))")
  from substitute_plain [OF pl] obtain r where
    r: "substitute other processedRow p replacement = Inr r" by blast
  from Cons obtain r' h where "substitute_split other row ps r (hasNull \<or> isNull) = Inr (r', h)"
    by fastforce
  with rs r show ?case by simp
qed

lemma value_rows_plain:
  assumes "\<forall>p \<in> set (match_all match_placeholder_at rt). plain_placeholder p"
  shows "\<exists>t. value_rows other rt rows = Inr t"
proof -
  have ps: "\<forall>p \<in> set (match_all match_placeholder_at rt). plain_placeholder p \<and> p \<noteq> []"
    using assms match_all_nonempty by blast
  have "\<exists>y. value_row other rt row = Inr y" for row
  proof -
    from substitute_all_plain [OF ps] obtain r where
      "substitute_all other row (match_all match_placeholder_at rt) rt = Inr r" by blast
    then show ?thesis by (simp add: value_row_def)
  qed
  then have "\<exists>ys. map_error (value_row other rt) rows = Inr ys" by (intro map_error_all_Inr)
  then obtain ys where "map_error (value_row other rt) rows = Inr ys" ..
  then show ?thesis by (simp add: value_rows_def)
qed

lemma statement_rows_plain:
  assumes "\<forall>p \<in> set (match_all match_placeholder_at tmpl). plain_placeholder p"
  shows "\<exists>t. statement_rows other tmpl rows = Inr t"
proof -
  have ps: "\<forall>p \<in> set (match_all match_placeholder_at tmpl). plain_placeholder p \<and> p \<noteq> []"
    using assms match_all_nonempty by blast
  have "\<exists>y. substitute_all other row (match_all match_placeholder_at tmpl) tmpl = Inr y" for row
    by (rule substitute_all_plain [OF ps])
  then have "\<exists>ys. map_error (\<lambda>row. substitute_all other row (match_all match_placeholder_at tmpl) tmpl) rows = Inr ys"
    by (intro map_error_all_Inr)
  then obtain ys where
    "map_error (\<lambda>row. substitute_all other row (match_all match_placeholder_at tmpl) tmpl) rows = Inr ys" ..
  then show ?thesis by (simp add: statement_rows_def)
qed

lemma split_rows_plain:
  assumes "\<forall>p \<in> set (match_all match_placeholder_at rt). plain_placeholder p"
  shows "\<exists>wo w. split_rows other rt rows wo0 w0 = Inr (wo, w)"
proof (induction rows arbitrary: wo0 w0)
  case Nil
  then show ?case by simp
next
  case (Cons row rows)
  have ps: "\<forall>p \<in> set (match_all match_placeholder_at rt). plain_placeholder p \<and> p \<noteq> []"
    using assms match_all_nonempty by blast
  from substitute_split_plain [OF ps] obtain r h where
    r: "substitute_split other row (match_all match_placeholder_at rt) rt False = Inr (r, h)" by blast
  show ?case
  proof (cases h)
    case True
    from Cons [of wo0 "w0 @ [''('' @ r @ '')'']"] r True show ?thesis by (simp add: Let_def)
  next
    case False
    from Cons [of "wo0 @ [''('' @ r @ '')'']" w0] r False show ?thesis by (simp add: Let_def)
  qed
qed

lemma batch_loop_plain:
  assumes "1 \<le> bs" and "\<forall>p \<in> set (match_all match_placeholder_at rt). plain_placeholder p"
  shows "\<exists>tabs'. batch_loop other rows rt ins bs i tabs = Some (Inr tabs')"
proof (induction "nat (int (length rows) - i)" arbitrary: i tabs rule: less_induct)
  case less
  show ?case
  proof (cases "i < int (length rows)")
    case False
    then show ?thesis by (subst batch_loop.simps) simp
  next
    case True
    from value_rows_plain [OF assms(2)] obtain t where
      t: "value_rows other rt (slice rows i (i + bs)) = Inr t" by blast
    have "nat (int (length rows) - (i + bs)) < nat (int (length rows) - i)"
      using True assms(1) by linarith
    from less [OF this] obtain tabs' where
      "batch_loop other rows rt ins bs (i + bs)
         (if t \<noteq> [] then tabs @ [batch_tab ins t (batchNumber i bs) (length (slice rows i (i + bs)))]
          else tabs) = Some (Inr tabs')"
      by blast
    with True t show ?thesis by (subst batch_loop.simps) (simp add: Let_def)
  qed
qed

lemma plain_placeholders_never_raise:
  assumes "\<forall>p \<in> set (template_placeholders tmpl). plain_placeholder p" and "1 \<le> bs"
  shows "(\<exists>tabs. generateSqlTabs other rows bs tmpl = Some (Inr tabs)) \<or>
         generateSqlTabs other rows bs tmpl = Some (Inl (Messages no_values_clause))"
proof (cases "includes_str (toLowerCase tmpl) ''values''")
  case False
  with assms(1) have "\<forall>p \<in> set (match_all match_placeholder_at tmpl). plain_placeholder p"
    by (simp add: template_placeholders_def)
  from statement_rows_plain [OF this] obtain t where "statement_rows other tmpl rows = Inr t" by blast
  with False show ?thesis by (simp add: generateSqlTabs_fallback)
next
  case True
  show ?thesis
  proof (cases "values_match tmpl")
    case None
    with True show ?thesis by (simp add: generateSqlTabs_def)
  next
    case (Some q)
    obtain idx rt where q: "q = (idx, rt)" by (cases q)
    show ?thesis
    proof (cases "rt = []")
      case rt: True
      with True Some q show ?thesis by (simp add: generateSqlTabs_def)
    next
      case rt: False
      from assms(1) True Some q have pl: "\<forall>p \<in> set (match_all match_placeholder_at rt). plain_placeholder p"
        by (simp add: template_placeholders_def)
      from value_rows_plain [OF pl] obtain a where a: "value_rows other rt rows = Inr a" by blast
      from split_rows_plain [OF pl] obtain wo w where sp: "split_rows other rt rows [] [] = Inr (wo, w)" by blast
      from batch_loop_plain [OF assms(2) pl] obtain tabs' where
        "batch_loop other rows rt (insertStatement_of tmpl idx) bs 0
           (initial_tabs (insertStatement_of tmpl idx) a (length rows) wo w) = Some (Inr tabs')"
        by blast
      with True Some q rt a sp show ?thesis by (simp add: generateSqlTabs_def Let_def)
    qed
  qed
qed

section \<open>The code at two inputs\<close>

text \<open>
  C1. The code at the input of the scenario: the tab ALL renders the field that holds
  \<open>null\<close> as the text \<open>null\<close>, in lower case, where the claim has \<open>NULL\<close>. The loop that
  builds ALL tests \<open>undefined\<close> only; the loop that separates the rows tests \<open>null\<close> as
  well, and the tab with NULL values has \<open>(2,NULL)\<close>. The row counts and the absence of
  batch tabs are as the claim says.
\<close>

theorem scenario_all_prints_lowercase_null:
  "generateSqlScript other (Some scenario_rows) scenario_template 1000 =
     Some (Inr
       [\<lparr>tab_id = ''all'', tab_name = ''ALL'',
         script = ''INSERT INTO t (id,name) VALUES'' @ [newline] @ ''(1,'A'),'' @ [newline] @ ''(2,null)'',
         rowCount = 2, tab_type = All\<rparr>,
        \<lparr>tab_id = ''without-null'', tab_name = ''Without NULL values'',
         script = ''INSERT INTO t (id,name) VALUES'' @ [newline] @ ''(1,'A')'',
         rowCount = 1, tab_type = WithoutNull\<rparr>,
        \<lparr>tab_id = ''with-null'', tab_name = ''With NULL values'',
         script = ''INSERT INTO t (id,name) VALUES'' @ [newline] @ ''(2,NULL)'',
         rowCount = 1, tab_type = WithNull\<rparr>])"
  by code_simp

text \<open>
  C6. The code at the template \<open>VALUES ({a(})\<close>: the placeholder is found, its key is
  \<open>a(\<close>, and the regular expression built from it, in which the braces alone are
  escaped, is rejected by the constructor; the expansion ends with a SyntaxError.
\<close>

theorem regex_metachar_placeholder_raises:
  "match_all match_placeholder_at ''{a(}'' = [''{a(}''] \<and>
   strip_braces ''{a(}'' = ''a('' \<and>
   generateSqlScript other (Some [[(''a('', Num (Fin 1 0))]]) ''VALUES ({a(})'' 1000 = Some (Inl SyntaxError)"
  by code_simp

end
